theory Spec2Isabelle
  imports Main "HOL-Library.Word"
begin

section \<open>ABCI messages\<close>

text \<open>
  Modelled from the spec: the request and response types, declared in the package
  \<^verbatim>\<open>github.com/tendermint/abci/types\<close>, are tagged unions over a fixed set of variants,
  with an Exception variant for responses only. The client looks at nothing but the dynamic
  type of the \<^verbatim>\<open>Value\<close> field; that field is an interface and may be nil, which is
  \<open>None\<close> here. Payloads whose schema the client never inspects are kept as bytes.
\<close>

type_synonym bytes = "8 word list"

datatype Request_Value =
    Request_Echo string
  | Request_Flush
  | Request_Info bytes
  | Request_SetOption string string
  | Request_DeliverTx bytes
  | Request_CheckTx bytes
  | Request_Commit
  | Request_Query bytes
  | Request_InitChain bytes
  | Request_BeginBlock bytes
  | Request_EndBlock "64 word"

datatype Response_Value =
    Response_Exception string
  | Response_Echo string
  | Response_Flush
  | Response_Info bytes
  | Response_SetOption string
  | Response_DeliverTx bytes
  | Response_CheckTx bytes
  | Response_Commit bytes
  | Response_Query bytes
  | Response_InitChain
  | Response_BeginBlock
  | Response_EndBlock bytes

type_synonym Request = "Request_Value option"
type_synonym Response = "Response_Value option"

text \<open>The variant tags shared by both unions; \<open>Tag_Exception\<close> exists for responses only.\<close>

datatype variant =
    Tag_Echo | Tag_Flush | Tag_Info | Tag_SetOption | Tag_DeliverTx | Tag_CheckTx
  | Tag_Commit | Tag_Query | Tag_InitChain | Tag_BeginBlock | Tag_EndBlock | Tag_Exception

fun req_variant :: "Request_Value \<Rightarrow> variant" where
  "req_variant (Request_Echo _) = Tag_Echo"
| "req_variant Request_Flush = Tag_Flush"
| "req_variant (Request_Info _) = Tag_Info"
| "req_variant (Request_SetOption _ _) = Tag_SetOption"
| "req_variant (Request_DeliverTx _) = Tag_DeliverTx"
| "req_variant (Request_CheckTx _) = Tag_CheckTx"
| "req_variant Request_Commit = Tag_Commit"
| "req_variant (Request_Query _) = Tag_Query"
| "req_variant (Request_InitChain _) = Tag_InitChain"
| "req_variant (Request_BeginBlock _) = Tag_BeginBlock"
| "req_variant (Request_EndBlock _) = Tag_EndBlock"

fun res_variant :: "Response_Value \<Rightarrow> variant" where
  "res_variant (Response_Exception _) = Tag_Exception"
| "res_variant (Response_Echo _) = Tag_Echo"
| "res_variant Response_Flush = Tag_Flush"
| "res_variant (Response_Info _) = Tag_Info"
| "res_variant (Response_SetOption _) = Tag_SetOption"
| "res_variant (Response_DeliverTx _) = Tag_DeliverTx"
| "res_variant (Response_CheckTx _) = Tag_CheckTx"
| "res_variant (Response_Commit _) = Tag_Commit"
| "res_variant (Response_Query _) = Tag_Query"
| "res_variant Response_InitChain = Tag_InitChain"
| "res_variant Response_BeginBlock = Tag_BeginBlock"
| "res_variant (Response_EndBlock _) = Tag_EndBlock"

text \<open>\<^verbatim>\<open>reflect.TypeOf(x.Value)\<close>: the dynamic type, nil for a nil interface.\<close>

definition TypeOf_req :: "Request \<Rightarrow> variant option" where
  "TypeOf_req req = map_option req_variant req"

definition TypeOf_res :: "Response \<Rightarrow> variant option" where
  "TypeOf_res res = map_option res_variant res"

definition ToRequestEcho :: "string \<Rightarrow> Request" where
  "ToRequestEcho msg = Some (Request_Echo msg)"

definition ToRequestFlush :: "Request" where
  "ToRequestFlush = Some Request_Flush"

definition ToRequestInfo :: "bytes \<Rightarrow> Request" where
  "ToRequestInfo req = Some (Request_Info req)"

text \<open>The nil-safe protobuf getters used by the synchronous calls.\<close>

fun GetEcho :: "Response option \<Rightarrow> string option" where
  "GetEcho (Some (Some (Response_Echo m))) = Some m"
| "GetEcho _ = None"

fun GetInfo :: "Response option \<Rightarrow> bytes option" where
  "GetInfo (Some (Some (Response_Info i))) = Some i"
| "GetInfo _ = None"

section \<open>Response/request matching\<close>

text \<open>
  \<^verbatim>\<open>resMatchesReq\<close>: a type switch on the request; each case sets \<open>ok\<close> from a type
  assertion on the response. No case matching leaves the named result at false.
\<close>

fun resMatchesReq :: "Request \<Rightarrow> Response \<Rightarrow> bool" where
  "resMatchesReq (Some (Request_Echo _)) res =
     (case res of Some (Response_Echo _) \<Rightarrow> True | _ \<Rightarrow> False)"
| "resMatchesReq (Some Request_Flush) res =
     (case res of Some Response_Flush \<Rightarrow> True | _ \<Rightarrow> False)"
| "resMatchesReq (Some (Request_Info _)) res =
     (case res of Some (Response_Info _) \<Rightarrow> True | _ \<Rightarrow> False)"
| "resMatchesReq (Some (Request_SetOption _ _)) res =
     (case res of Some (Response_SetOption _) \<Rightarrow> True | _ \<Rightarrow> False)"
| "resMatchesReq (Some (Request_DeliverTx _)) res =
     (case res of Some (Response_DeliverTx _) \<Rightarrow> True | _ \<Rightarrow> False)"
| "resMatchesReq (Some (Request_CheckTx _)) res =
     (case res of Some (Response_CheckTx _) \<Rightarrow> True | _ \<Rightarrow> False)"
| "resMatchesReq (Some Request_Commit) res =
     (case res of Some (Response_Commit _) \<Rightarrow> True | _ \<Rightarrow> False)"
| "resMatchesReq (Some (Request_Query _)) res =
     (case res of Some (Response_Query _) \<Rightarrow> True | _ \<Rightarrow> False)"
| "resMatchesReq (Some (Request_InitChain _)) res =
     (case res of Some Response_InitChain \<Rightarrow> True | _ \<Rightarrow> False)"
| "resMatchesReq (Some (Request_BeginBlock _)) res =
     (case res of Some Response_BeginBlock \<Rightarrow> True | _ \<Rightarrow> False)"
| "resMatchesReq (Some (Request_EndBlock _)) res =
     (case res of Some (Response_EndBlock _) \<Rightarrow> True | _ \<Rightarrow> False)"
| "resMatchesReq None res = False"

text \<open>
  The predicate as the specification words it: true iff both tags are present, equal, and
  one of the eleven request/response pairings.
\<close>

definition paired_variants :: "variant list" where
  "paired_variants =
     [Tag_Echo, Tag_Flush, Tag_Info, Tag_SetOption, Tag_DeliverTx, Tag_CheckTx,
      Tag_Commit, Tag_Query, Tag_InitChain, Tag_BeginBlock, Tag_EndBlock]"

definition matches_spec :: "Request \<Rightarrow> Response \<Rightarrow> bool" where
  "matches_spec req res =
     (case (req, res) of
        (Some rv, Some sv) \<Rightarrow>
          res_variant sv = req_variant rv \<and> req_variant rv \<in> set paired_variants
      | _ \<Rightarrow> False)"

section \<open>Errors\<close>

text \<open>
  One constructor per place where the client makes or receives an error value.
  \<open>Wrapped\<close> is \<^verbatim>\<open>errors.Wrap(err, msg)\<close> on a non-nil error.
\<close>

datatype error =
    ConnectFailed string
  | CodecError string
  | ErrWritingMsg error
  | ErrFlushingWriter error
  | ErrException string
  | ErrNothingExpected "variant option"
  | ErrUnexpectedType "variant option" "variant option"
  | Wrapped error string

text \<open>The specification's \<open>ProtocolError\<close>: a response when none is expected, or a variant mismatch.\<close>

fun is_ProtocolError :: "error \<Rightarrow> bool" where
  "is_ProtocolError (ErrNothingExpected _) = True"
| "is_ProtocolError (ErrUnexpectedType _ _) = True"
| "is_ProtocolError _ = False"

section \<open>ReqRes handles\<close>

text \<open>
  Modelled from the spec: the \<^verbatim>\<open>ReqRes\<close> handle (\<^verbatim>\<open>NewReqRes\<close>, \<^verbatim>\<open>Done\<close>,
  \<^verbatim>\<open>GetCallback\<close>) is declared in another file of the package. A handle bundles the
  request, the optional response, the one-shot completion signal and an optional callback
  (here: whether one is installed). Handles are shared by pointer between the caller, the
  submission queue and the in-flight list, so they live in a store and are named by their
  index in it.
\<close>

record ReqRes =
  request :: Request
  response :: "Response option"
  rdone :: bool
  cb :: bool

type_synonym handle = nat

definition NewReqRes :: "Request \<Rightarrow> ReqRes" where
  "NewReqRes req = \<lparr>request = req, response = None, rdone = False, cb = False\<rparr>"

section \<open>The client\<close>

text \<open>Effects that leave no mark on the client's fields are recorded, in program order.\<close>

datatype event =
    EvLogError
  | EvSleep nat
  | EvGoSendRequestsRoutine
  | EvGoRecvResponseRoutine
  | EvConnClose
  | EvPushBack handle
  | EvWriteMessage handle
  | EvWriterFlush
  | EvCallback handle
  | EvResCb handle

datatype conn_state = ConnOpen | ConnClosed

text \<open>
  \<open>started\<close>, \<open>stopped\<close> and \<open>quit\<close> are the embedded \<^verbatim>\<open>BaseService\<close>;
  \<open>flushTimer\<close> is whether the throttle timer is armed; \<open>store\<close> holds the handles;
  \<open>wbuf\<close> holds the frames written to the sender's \<^verbatim>\<open>bufio.Writer\<close> since the last
  call of \<^verbatim>\<open>w.Flush()\<close>, and \<open>wire\<close> the frames such calls have handed to the socket
  (that the writer spills by itself when its buffer is full is outside the model).
\<close>

record socketClient =
  started :: bool
  stopped :: bool
  quit :: bool
  reqQueue :: "handle list"
  flushTimer :: bool
  mustConnect :: bool
  addr :: string
  conn :: "conn_state option"
  err :: "error option"
  reqSent :: "handle list"
  resCb :: bool
  store :: "ReqRes list"
  wbuf :: "Request list"
  wire :: "Request list"
  trace :: "event list"

definition reqQueueSize :: nat where
  "reqQueueSize = 256"

definition NewSocketClient :: "string \<Rightarrow> bool \<Rightarrow> socketClient" where
  "NewSocketClient a mc =
     \<lparr>started = False, stopped = False, quit = False, reqQueue = [], flushTimer = False,
      mustConnect = mc, addr = a, conn = None, err = None, reqSent = [], resCb = False,
      store = [], wbuf = [], wire = [], trace = []\<rparr>"

definition emit :: "event list \<Rightarrow> socketClient \<Rightarrow> socketClient" where
  "emit evs s = s\<lparr>trace := trace s @ evs\<rparr>"

text \<open>
  Modelled from the spec: \<^verbatim>\<open>ReqRes.Done\<close> signals completion of the handle. Every
  handle in a queue was allocated in the store; an index outside it changes nothing.
\<close>

definition Done :: "handle \<Rightarrow> socketClient \<Rightarrow> socketClient" where
  "Done h s =
     (if h < length (store s)
      then s\<lparr>store := (store s)[h := (store s ! h)\<lparr>rdone := True\<rparr>]\<rparr>
      else s)"

text \<open>Modelled from the spec: the running flag of the lifecycle harness.\<close>

definition IsRunning :: "socketClient \<Rightarrow> bool" where
  "IsRunning s = (started s \<and> \<not> stopped s)"

subsection \<open>Start\<close>

datatype connect_result = ConnFail error | ConnOk

text \<open>
  \<^verbatim>\<open>RETRY_LOOP\<close> of \<^verbatim>\<open>OnStart\<close>. The outcome of the \<open>i\<close>-th call of
  \<^verbatim>\<open>cmn.Connect\<close> is given by the environment. The loop has no bound: not returning is
  \<open>None\<close>.
\<close>

partial_function (option) RETRY_LOOP ::
  "(nat \<Rightarrow> connect_result) \<Rightarrow> nat \<Rightarrow> socketClient \<Rightarrow> (error option \<times> socketClient) option"
where
  "RETRY_LOOP env i s =
     (case env i of
        ConnFail e \<Rightarrow>
          if mustConnect s then Some (Some e, s)
          else RETRY_LOOP env (Suc i) (emit [EvLogError, EvSleep 3] s)
      | ConnOk \<Rightarrow>
          Some (None, emit [EvGoSendRequestsRoutine, EvGoRecvResponseRoutine]
                        (s\<lparr>conn := Some ConnOpen\<rparr>)))"

declare RETRY_LOOP.simps [code]

text \<open>\<open>base\<close> is the result of \<^verbatim>\<open>cli.BaseService.OnStart()\<close>.\<close>

definition OnStart ::
  "error option \<Rightarrow> (nat \<Rightarrow> connect_result) \<Rightarrow> socketClient \<Rightarrow> (error option \<times> socketClient) option"
where
  "OnStart base env s =
     (case base of
        Some e \<Rightarrow> Some (Some e, s)
      | None \<Rightarrow> RETRY_LOOP env 0 s)"

text \<open>
  Modelled from the spec: \<^verbatim>\<open>Start\<close> of the lifecycle harness. A client that was
  started or stopped before is left alone; a failed \<^verbatim>\<open>OnStart\<close> leaves it not started.
\<close>

definition Start ::
  "(nat \<Rightarrow> connect_result) \<Rightarrow> socketClient \<Rightarrow> (error option \<times> socketClient) option"
where
  "Start env s =
     (if started s \<or> stopped s then Some (None, s)
      else (case OnStart None env (s\<lparr>started := True\<rparr>) of
              None \<Rightarrow> None
            | Some (Some e, s') \<Rightarrow> Some (Some e, s'\<lparr>started := False\<rparr>)
            | Some (None, s') \<Rightarrow> Some (None, s')))"

subsection \<open>Stop\<close>

text \<open>\<^verbatim>\<open>flushQueue\<close>: receive from the queue until it is empty, signalling each handle.\<close>

function flushQueue :: "socketClient \<Rightarrow> socketClient" where
  "flushQueue s =
     (case reqQueue s of
        [] \<Rightarrow> s
      | reqres # rest \<Rightarrow> flushQueue (Done reqres (s\<lparr>reqQueue := rest\<rparr>)))"
  by pat_completeness auto
termination
  by (relation "measure (\<lambda>s. length (reqQueue s))") (auto simp: Done_def)

definition OnStop :: "socketClient \<Rightarrow> socketClient" where
  "OnStop s =
     flushQueue
       (case conn s of
          Some c \<Rightarrow> emit [EvConnClose] (s\<lparr>conn := Some ConnClosed\<rparr>)
        | None \<Rightarrow> s)"

text \<open>
  Modelled from the spec: \<^verbatim>\<open>Stop\<close> of the lifecycle harness is idempotent; the first
  call marks the client not running, runs \<^verbatim>\<open>OnStop\<close> and closes the quit channel.
\<close>

definition Stop :: "socketClient \<Rightarrow> socketClient" where
  "Stop s = (if stopped s then s else (OnStop (s\<lparr>stopped := True\<rparr>))\<lparr>quit := True\<rparr>)"

definition StopForError :: "error \<Rightarrow> socketClient \<Rightarrow> socketClient" where
  "StopForError e s =
     (if \<not> IsRunning s then s
      else Stop (emit [EvLogError] (if err s = None then s\<lparr>err := Some e\<rparr> else s)))"

text \<open>
  Modelled from the spec: the generic internal-error tag,
  \<^verbatim>\<open>types.HumanCode(types.CodeType_InternalError)\<close>.
\<close>

definition HumanCode_InternalError :: string where
  "HumanCode_InternalError = ''Internal error''"

text \<open>\<^verbatim>\<open>Error\<close>: \<^verbatim>\<open>errors.Wrap\<close> of nil is nil.\<close>

definition Error :: "socketClient \<Rightarrow> error option" where
  "Error s = map_option (\<lambda>e. Wrapped e HumanCode_InternalError) (err s)"

definition SetResponseCallback :: "socketClient \<Rightarrow> socketClient" where
  "SetResponseCallback s = s\<lparr>resCb := True\<rparr>"

subsection \<open>Submission\<close>

text \<open>
  Modelled from the spec: the throttle timer. \<^verbatim>\<open>Set\<close> arms it (no-op when armed),
  \<^verbatim>\<open>Unset\<close> cancels an armed firing; it can fire only while armed.
\<close>

definition ThrottleTimer_Set :: "socketClient \<Rightarrow> socketClient" where
  "ThrottleTimer_Set s = s\<lparr>flushTimer := True\<rparr>"

definition ThrottleTimer_Unset :: "socketClient \<Rightarrow> socketClient" where
  "ThrottleTimer_Unset s = s\<lparr>flushTimer := False\<rparr>"

text \<open>
  \<^verbatim>\<open>queueRequest\<close>. The channel send blocks while the queue holds \<open>reqQueueSize\<close>
  handles; a call that cannot complete on its own is \<open>None\<close>.
\<close>

definition queueRequest :: "Request \<Rightarrow> socketClient \<Rightarrow> (handle \<times> socketClient) option" where
  "queueRequest req s =
     (let reqres = length (store s);
          s1 = s\<lparr>store := store s @ [NewReqRes req]\<rparr>
      in if length (reqQueue s1) < reqQueueSize
         then (let s2 = s1\<lparr>reqQueue := reqQueue s1 @ [reqres]\<rparr>
               in Some (reqres,
                        (case req of
                           Some Request_Flush \<Rightarrow> ThrottleTimer_Unset s2
                         | _ \<Rightarrow> ThrottleTimer_Set s2)))
         else None)"

definition EchoAsync :: "string \<Rightarrow> socketClient \<Rightarrow> (handle \<times> socketClient) option" where
  "EchoAsync msg s = queueRequest (ToRequestEcho msg) s"

definition FlushAsync :: "socketClient \<Rightarrow> (handle \<times> socketClient) option" where
  "FlushAsync s = queueRequest ToRequestFlush s"

definition InfoAsync :: "bytes \<Rightarrow> socketClient \<Rightarrow> (handle \<times> socketClient) option" where
  "InfoAsync req s = queueRequest (ToRequestInfo req) s"

text \<open>
  Modelled from the spec: \<^verbatim>\<open>ReqRes.Wait\<close> returns once the handle is done; until
  another task signals it the caller is blocked (\<open>None\<close>).
\<close>

definition Wait :: "handle \<Rightarrow> socketClient \<Rightarrow> socketClient option" where
  "Wait h s = (if h < length (store s) \<and> rdone (store s ! h) then Some s else None)"

text \<open>
  The synchronous calls, as one step of the caller: where the caller would have to wait for
  another task (a full queue, a handle that is not done) the value is \<open>None\<close>.
\<close>

definition FlushSync :: "socketClient \<Rightarrow> (error option \<times> socketClient) option" where
  "FlushSync s =
     (case queueRequest ToRequestFlush s of
        None \<Rightarrow> None
      | Some (reqRes, s1) \<Rightarrow>
          (case Error s1 of
             Some e \<Rightarrow> Some (Some e, s1)
           | None \<Rightarrow>
               (case Wait reqRes s1 of
                  None \<Rightarrow> None
                | Some s2 \<Rightarrow> Some (Error s2, s2))))"

definition EchoSync ::
  "string \<Rightarrow> socketClient \<Rightarrow> ((string option \<times> error option) \<times> socketClient) option"
where
  "EchoSync msg s =
     (case queueRequest (ToRequestEcho msg) s of
        None \<Rightarrow> None
      | Some (reqres, s1) \<Rightarrow>
          (case FlushSync s1 of
             None \<Rightarrow> None
           | Some (_, s2) \<Rightarrow> Some ((GetEcho (response (store s2 ! reqres)), Error s2), s2)))"

definition InfoSync ::
  "bytes \<Rightarrow> socketClient \<Rightarrow> ((bytes option \<times> error option) \<times> socketClient) option"
where
  "InfoSync req s =
     (case queueRequest (ToRequestInfo req) s of
        None \<Rightarrow> None
      | Some (reqres, s1) \<Rightarrow>
          (case FlushSync s1 of
             None \<Rightarrow> None
           | Some (_, s2) \<Rightarrow> Some ((GetInfo (response (store s2 ! reqres)), Error s2), s2)))"

subsection \<open>The sender task\<close>

definition willSendReq :: "handle \<Rightarrow> socketClient \<Rightarrow> socketClient" where
  "willSendReq reqres s = emit [EvPushBack reqres] (s\<lparr>reqSent := reqSent s @ [reqres]\<rparr>)"

text \<open>
  \<^verbatim>\<open>types.WriteMessage(reqres.Request, w)\<close> and \<^verbatim>\<open>w.Flush()\<close>; whether the call fails
  is the environment's choice (first argument).
\<close>

definition WriteMessage ::
  "error option \<Rightarrow> handle \<Rightarrow> socketClient \<Rightarrow> error option \<times> socketClient"
where
  "WriteMessage outcome reqres s =
     (case outcome of
        Some e \<Rightarrow> (Some e, emit [EvWriteMessage reqres] s)
      | None \<Rightarrow>
          (None, emit [EvWriteMessage reqres] (s\<lparr>wbuf := wbuf s @ [request (store s ! reqres)]\<rparr>)))"

definition WriterFlush :: "error option \<Rightarrow> socketClient \<Rightarrow> error option \<times> socketClient" where
  "WriterFlush outcome s =
     (case outcome of
        Some e \<Rightarrow> (Some e, emit [EvWriterFlush] s)
      | None \<Rightarrow> (None, emit [EvWriterFlush] (s\<lparr>wire := wire s @ wbuf s, wbuf := []\<rparr>)))"

fun is_Request_Flush :: "Request \<Rightarrow> bool" where
  "is_Request_Flush (Some Request_Flush) = True"
| "is_Request_Flush _ = False"

datatype select_case = TimerCh | QuitCh | ReqQueueCh

text \<open>
  One iteration of the loop of \<^verbatim>\<open>sendRequestsRoutine\<close>, for the case the
  \<^verbatim>\<open>select\<close> takes. A case that is not ready (timer not armed, quit channel open,
  queue empty) cannot be taken: \<open>None\<close>. The boolean says whether the loop goes on.
  The operand of the inner send, \<^verbatim>\<open>NewReqRes(types.ToRequestFlush())\<close>, is evaluated
  before the inner \<^verbatim>\<open>select\<close> chooses.
\<close>

definition sendRequestsRoutine_iter ::
  "select_case \<Rightarrow> error option \<Rightarrow> error option \<Rightarrow> socketClient \<Rightarrow> (bool \<times> socketClient) option"
where
  "sendRequestsRoutine_iter c werr ferr s =
     (case c of
        TimerCh \<Rightarrow>
          if \<not> flushTimer s then None
          else (let reqres = length (store s);
                    s1 = s\<lparr>flushTimer := False, store := store s @ [NewReqRes ToRequestFlush]\<rparr>
                in if length (reqQueue s1) < reqQueueSize
                   then Some (True, s1\<lparr>reqQueue := reqQueue s1 @ [reqres]\<rparr>)
                   else Some (True, s1))
      | QuitCh \<Rightarrow> if quit s then Some (False, s) else None
      | ReqQueueCh \<Rightarrow>
          (case reqQueue s of
             [] \<Rightarrow> None
           | reqres # rest \<Rightarrow>
               (let s1 = willSendReq reqres (s\<lparr>reqQueue := rest\<rparr>)
                in case WriteMessage werr reqres s1 of
                     (Some e, s2) \<Rightarrow> Some (False, StopForError (ErrWritingMsg e) s2)
                   | (None, s2) \<Rightarrow>
                       if is_Request_Flush (request (store s2 ! reqres))
                       then (case WriterFlush ferr s2 of
                               (Some e, s3) \<Rightarrow> Some (False, StopForError (ErrFlushingWriter e) s3)
                             | (None, s3) \<Rightarrow> Some (True, s3))
                       else Some (True, s2))))"

text \<open>The loop, run on a schedule of select choices and I/O outcomes until it returns.\<close>

fun sendRequestsRoutine ::
  "(select_case \<times> error option \<times> error option) list \<Rightarrow> socketClient \<Rightarrow> socketClient"
where
  "sendRequestsRoutine [] s = s"
| "sendRequestsRoutine ((c, werr, ferr) # sched) s =
     (case sendRequestsRoutine_iter c werr ferr s of
        None \<Rightarrow> s
      | Some (True, s') \<Rightarrow> sendRequestsRoutine sched s'
      | Some (False, s') \<Rightarrow> s')"

subsection \<open>The receiver task\<close>

definition didRecvResponse :: "Response \<Rightarrow> socketClient \<Rightarrow> error option \<times> socketClient" where
  "didRecvResponse res s =
     (case reqSent s of
        [] \<Rightarrow> (Some (ErrNothingExpected (TypeOf_res res)), s)
      | next # rest \<Rightarrow>
          (let reqres = store s ! next
           in if \<not> resMatchesReq (request reqres) res
              then (Some (ErrUnexpectedType (TypeOf_res res) (TypeOf_req (request reqres))), s)
              else (let s1 = s\<lparr>store := (store s)[next := reqres\<lparr>response := Some res, rdone := True\<rparr>],
                                reqSent := rest\<rparr>;
                        s2 = (if cb reqres then emit [EvCallback next] s1 else s1);
                        s3 = (if resCb s2 then emit [EvResCb next] s2 else s2)
                    in (None, s3))))"

datatype read_result = ReadErr error | ReadOk Response

text \<open>
  One iteration of the loop of \<^verbatim>\<open>recvResponseRoutine\<close>, given what
  \<^verbatim>\<open>types.ReadMessage\<close> returned. The boolean says whether the loop goes on.
\<close>

definition recvResponseRoutine_iter :: "read_result \<Rightarrow> socketClient \<Rightarrow> bool \<times> socketClient" where
  "recvResponseRoutine_iter rd s =
     (case rd of
        ReadErr e \<Rightarrow> (False, StopForError e s)
      | ReadOk res \<Rightarrow>
          (case res of
             Some (Response_Exception msg) \<Rightarrow> (False, StopForError (ErrException msg) s)
           | _ \<Rightarrow>
               (case didRecvResponse res s of
                  (Some e, s') \<Rightarrow> (False, StopForError e s')
                | (None, s') \<Rightarrow> (True, s'))))"

fun recvResponseRoutine :: "read_result list \<Rightarrow> socketClient \<Rightarrow> socketClient" where
  "recvResponseRoutine [] s = s"
| "recvResponseRoutine (rd # rds) s =
     (case recvResponseRoutine_iter rd s of
        (True, s') \<Rightarrow> recvResponseRoutine rds s'
      | (False, s') \<Rightarrow> s')"

section \<open>Sequences of operations\<close>

text \<open>
  What callers and the two tasks can do to a client, one operation at a time, and the state
  after a sequence of them; an operation that cannot complete on its own (a blocked caller,
  a select case that is not ready) has no state after it.
\<close>

datatype operation =
    Op_Start "nat \<Rightarrow> connect_result"
  | Op_Stop
  | Op_StopForError error
  | Op_SetResponseCallback
  | Op_queueRequest Request
  | Op_FlushSync
  | Op_EchoSync string
  | Op_InfoSync bytes
  | Op_sender select_case "error option" "error option"
  | Op_receiver read_result

fun after_op :: "operation \<Rightarrow> socketClient \<Rightarrow> socketClient option" where
  "after_op (Op_Start env) s = map_option snd (Start env s)"
| "after_op Op_Stop s = Some (Stop s)"
| "after_op (Op_StopForError e) s = Some (StopForError e s)"
| "after_op Op_SetResponseCallback s = Some (SetResponseCallback s)"
| "after_op (Op_queueRequest req) s = map_option snd (queueRequest req s)"
| "after_op Op_FlushSync s = map_option snd (FlushSync s)"
| "after_op (Op_EchoSync msg) s = map_option snd (EchoSync msg s)"
| "after_op (Op_InfoSync req) s = map_option snd (InfoSync req s)"
| "after_op (Op_sender c werr ferr) s = map_option snd (sendRequestsRoutine_iter c werr ferr s)"
| "after_op (Op_receiver rd) s = Some (snd (recvResponseRoutine_iter rd s))"

fun after_ops :: "operation list \<Rightarrow> socketClient \<Rightarrow> socketClient option" where
  "after_ops [] s = Some s"
| "after_ops (op # ops) s =
     (case after_op op s of
        None \<Rightarrow> None
      | Some s' \<Rightarrow> after_ops ops s')"

text \<open>\<open>n\<close> calls of \<^verbatim>\<open>EchoAsync("x")\<close> in a row; a call that blocks ends the row.\<close>

fun EchoAsync_times :: "nat \<Rightarrow> socketClient \<Rightarrow> socketClient" where
  "EchoAsync_times 0 s = s"
| "EchoAsync_times (Suc n) s =
     (case EchoAsync ''x'' s of
        None \<Rightarrow> s
      | Some (reqres, s') \<Rightarrow> EchoAsync_times n s')"

section \<open>Concrete client states\<close>

text \<open>A client started against a server that accepts the first connection.\<close>

definition client_running :: socketClient where
  "client_running =
     \<lparr>started = True, stopped = False, quit = False, reqQueue = [], flushTimer = False,
      mustConnect = True, addr = ''unix://abci.sock'', conn = Some ConnOpen, err = None,
      reqSent = [], resCb = False, store = [], wbuf = [], wire = [],
      trace = [EvGoSendRequestsRoutine, EvGoRecvResponseRoutine]\<rparr>"

text \<open>
  The same client after \<^verbatim>\<open>EchoAsync("hi")\<close> and one turn of the sender: the handle 0
  is in flight, its frame sits in the buffered writer.
\<close>

definition client_echo_inflight :: socketClient where
  "client_echo_inflight =
     \<lparr>started = True, stopped = False, quit = False, reqQueue = [], flushTimer = True,
      mustConnect = True, addr = ''unix://abci.sock'', conn = Some ConnOpen, err = None,
      reqSent = [0], resCb = False,
      store = [\<lparr>request = Some (Request_Echo ''hi''), response = None, rdone = False, cb = False\<rparr>],
      wbuf = [Some (Request_Echo ''hi'')], wire = [],
      trace = [EvGoSendRequestsRoutine, EvGoRecvResponseRoutine, EvPushBack 0, EvWriteMessage 0]\<rparr>"

text \<open>
  After a further \<^verbatim>\<open>EchoAsync("ho")\<close> that the sender has not picked up yet: handle 0 is
  in flight, handle 1 waits in the submission queue.
\<close>

definition client_inflight_and_queued :: socketClient where
  "client_inflight_and_queued =
     \<lparr>started = True, stopped = False, quit = False, reqQueue = [1], flushTimer = True,
      mustConnect = True, addr = ''unix://abci.sock'', conn = Some ConnOpen, err = None,
      reqSent = [0], resCb = False,
      store = [\<lparr>request = Some (Request_Echo ''hi''), response = None, rdone = False, cb = False\<rparr>,
               \<lparr>request = Some (Request_Echo ''ho''), response = None, rdone = False, cb = False\<rparr>],
      wbuf = [Some (Request_Echo ''hi'')], wire = [],
      trace = [EvGoSendRequestsRoutine, EvGoRecvResponseRoutine, EvPushBack 0, EvWriteMessage 0]\<rparr>"

text \<open>A server that refuses the first two connections, and one that refuses all.\<close>

definition env_third_try :: "nat \<Rightarrow> connect_result" where
  "env_third_try i = (if i < 2 then ConnFail (ConnectFailed ''connection refused'') else ConnOk)"

definition env_down :: "nat \<Rightarrow> connect_result" where
  "env_down i = ConnFail (ConnectFailed ''connection refused'')"

section \<open>Basic facts about the operations\<close>

lemma emit_fields [simp]:
  "started (emit evs s) = started s" "stopped (emit evs s) = stopped s"
  "quit (emit evs s) = quit s" "reqQueue (emit evs s) = reqQueue s"
  "flushTimer (emit evs s) = flushTimer s" "mustConnect (emit evs s) = mustConnect s"
  "addr (emit evs s) = addr s" "conn (emit evs s) = conn s" "err (emit evs s) = err s"
  "reqSent (emit evs s) = reqSent s" "resCb (emit evs s) = resCb s"
  "store (emit evs s) = store s" "wbuf (emit evs s) = wbuf s" "wire (emit evs s) = wire s"
  "trace (emit evs s) = trace s @ evs"
  by (simp_all add: emit_def)

lemma emit_emit: "emit b (emit a s) = emit (a @ b) s"
  by (simp add: emit_def)

lemma emit_Nil: "emit [] s = s"
  by (simp add: emit_def)

declare flushQueue.simps [simp del]

lemma flushQueue_frame:
  "flushQueue s = s\<lparr>reqQueue := [], store := store (flushQueue s)\<rparr>"
proof (induction s rule: flushQueue.induct)
  case (1 s)
  show ?case
  proof (cases "reqQueue s")
    case Nil
    then show ?thesis by (simp add: flushQueue.simps [of s])
  next
    case (Cons reqres rest)
    have "flushQueue s = flushQueue (Done reqres (s\<lparr>reqQueue := rest\<rparr>))"
      using Cons by (simp add: flushQueue.simps [of s])
    also have "\<dots> = (Done reqres (s\<lparr>reqQueue := rest\<rparr>))
        \<lparr>reqQueue := [], store := store (flushQueue (Done reqres (s\<lparr>reqQueue := rest\<rparr>)))\<rparr>"
      using "1.IH" [OF Cons] .
    also have "\<dots> = s\<lparr>reqQueue := [], store := store (flushQueue (Done reqres (s\<lparr>reqQueue := rest\<rparr>)))\<rparr>"
      by (simp add: Done_def)
    finally show ?thesis
      using Cons by (simp add: flushQueue.simps [of s])
  qed
qed

lemma flushQueue_fields:
  "started (flushQueue s) = started s" "stopped (flushQueue s) = stopped s"
  "quit (flushQueue s) = quit s" "reqQueue (flushQueue s) = []"
  "flushTimer (flushQueue s) = flushTimer s" "mustConnect (flushQueue s) = mustConnect s"
  "addr (flushQueue s) = addr s" "conn (flushQueue s) = conn s" "err (flushQueue s) = err s"
  "reqSent (flushQueue s) = reqSent s" "resCb (flushQueue s) = resCb s"
  "wbuf (flushQueue s) = wbuf s" "wire (flushQueue s) = wire s"
  "trace (flushQueue s) = trace s"
  by (subst flushQueue_frame, simp)+

lemma flushQueue_length_store: "length (store (flushQueue s)) = length (store s)"
proof (induction s rule: flushQueue.induct)
  case (1 s)
  show ?case
  proof (cases "reqQueue s")
    case Nil
    then show ?thesis by (simp add: flushQueue.simps [of s])
  next
    case (Cons reqres rest)
    with "1.IH" [OF Cons] show ?thesis
      by (simp add: flushQueue.simps [of s] Done_def)
  qed
qed

text \<open>The drain leaves every handle that was not in the queue as it was.\<close>

lemma flushQueue_other: "h \<notin> set (reqQueue s) \<Longrightarrow> store (flushQueue s) ! h = store s ! h"
proof (induction s rule: flushQueue.induct)
  case (1 s)
  show ?case
  proof (cases "reqQueue s")
    case Nil
    then show ?thesis by (simp add: flushQueue.simps [of s])
  next
    case (Cons reqres rest)
    with "1.prems" have ne: "h \<noteq> reqres" and notin: "h \<notin> set rest" by auto
    have "store (flushQueue s) ! h = store (flushQueue (Done reqres (s\<lparr>reqQueue := rest\<rparr>))) ! h"
      using Cons by (simp add: flushQueue.simps [of s])
    also have "\<dots> = store (Done reqres (s\<lparr>reqQueue := rest\<rparr>)) ! h"
      using notin by (intro "1.IH" [OF Cons]) (simp add: Done_def)
    also have "\<dots> = store s ! h"
      using ne by (simp add: Done_def)
    finally show ?thesis .
  qed
qed

text \<open>The drain signals every handle that was in the queue.\<close>

lemma Done_rdone_mono:
  "h < length (store s) \<Longrightarrow> rdone (store s ! h) \<Longrightarrow> rdone (store (Done k s) ! h)"
  by (cases "h = k") (simp_all add: Done_def)

lemma flushQueue_rdone_mono:
  "h < length (store s) \<Longrightarrow> rdone (store s ! h) \<Longrightarrow> rdone (store (flushQueue s) ! h)"
proof (induction s rule: flushQueue.induct)
  case (1 s)
  show ?case
  proof (cases "reqQueue s")
    case Nil
    with "1.prems" show ?thesis by (simp add: flushQueue.simps [of s])
  next
    case (Cons reqres rest)
    let ?s1 = "Done reqres (s\<lparr>reqQueue := rest\<rparr>)"
    have len: "h < length (store ?s1)"
      using "1.prems" by (simp add: Done_def)
    have "rdone (store ?s1 ! h)"
      using "1.prems" Done_rdone_mono [of h "s\<lparr>reqQueue := rest\<rparr>" reqres] by simp
    from "1.IH" [OF Cons len this] show ?thesis
      using Cons by (simp add: flushQueue.simps [of s])
  qed
qed

lemma flushQueue_releases:
  "h \<in> set (reqQueue s) \<Longrightarrow> h < length (store s) \<Longrightarrow> rdone (store (flushQueue s) ! h)"
proof (induction s rule: flushQueue.induct)
  case (1 s)
  show ?case
  proof (cases "reqQueue s")
    case Nil
    with "1.prems" show ?thesis by simp
  next
    case (Cons reqres rest)
    let ?s1 = "Done reqres (s\<lparr>reqQueue := rest\<rparr>)"
    have len: "h < length (store ?s1)"
      using "1.prems" by (simp add: Done_def)
    have step: "flushQueue s = flushQueue ?s1"
      using Cons by (simp add: flushQueue.simps [of s])
    show ?thesis
    proof (cases "h = reqres")
      case True
      with "1.prems" have "rdone (store ?s1 ! h)" by (simp add: Done_def)
      from flushQueue_rdone_mono [OF len this] step show ?thesis by simp
    next
      case False
      with "1.prems" Cons have "h \<in> set (reqQueue ?s1)" by (simp add: Done_def)
      from "1.IH" [OF Cons this len] step show ?thesis by simp
    qed
  qed
qed

lemma OnStop_fields:
  "started (OnStop s) = started s" "stopped (OnStop s) = stopped s"
  "quit (OnStop s) = quit s" "reqQueue (OnStop s) = []"
  "flushTimer (OnStop s) = flushTimer s" "mustConnect (OnStop s) = mustConnect s"
  "err (OnStop s) = err s" "reqSent (OnStop s) = reqSent s" "resCb (OnStop s) = resCb s"
  "wbuf (OnStop s) = wbuf s" "wire (OnStop s) = wire s"
  "trace (OnStop s) = trace s @ (case conn s of Some c \<Rightarrow> [EvConnClose] | None \<Rightarrow> [])"
  by (simp_all add: OnStop_def flushQueue_fields split: option.split)

lemma Stop_fields:
  "started (Stop s) = started s" "stopped (Stop s) = True"
  "mustConnect (Stop s) = mustConnect s"
  "err (Stop s) = err s" "reqSent (Stop s) = reqSent s" "resCb (Stop s) = resCb s"
  "wbuf (Stop s) = wbuf s" "wire (Stop s) = wire s"
  by (simp_all add: Stop_def OnStop_fields)

lemma Stop_reqQueue: "\<not> stopped s \<Longrightarrow> reqQueue (Stop s) = []"
  by (simp add: Stop_def OnStop_fields)

lemma Stop_trace:
  "trace (Stop s) =
     trace s @ (if stopped s then [] else case conn s of Some c \<Rightarrow> [EvConnClose] | None \<Rightarrow> [])"
  by (simp add: Stop_def OnStop_fields)

lemma Stop_not_running: "\<not> IsRunning (Stop s)"
  by (simp add: IsRunning_def Stop_fields)

lemma StopForError_not_running_after: "\<not> IsRunning (StopForError e s)"
  by (simp add: StopForError_def Stop_not_running)

lemma StopForError_err:
  "err (StopForError e s) = (if IsRunning s \<and> err s = None then Some e else err s)"
  by (simp add: StopForError_def Stop_fields)

lemma StopForError_fields:
  "reqSent (StopForError e s) = reqSent s" "wbuf (StopForError e s) = wbuf s"
  "wire (StopForError e s) = wire s" "started (StopForError e s) = started s"
  by (simp_all add: StopForError_def Stop_fields)

lemma StopForError_reqQueue: "IsRunning s \<Longrightarrow> reqQueue (StopForError e s) = []"
  by (simp add: StopForError_def IsRunning_def Stop_reqQueue)

lemma StopForError_trace:
  "trace (StopForError e s) =
     trace s @ (if IsRunning s
                then EvLogError # (case conn s of Some c \<Rightarrow> [EvConnClose] | None \<Rightarrow> [])
                else [])"
  by (simp add: StopForError_def Stop_trace IsRunning_def)

section \<open>The concrete states are reachable\<close>

lemma client_running_reached:
  "Start (\<lambda>i. ConnOk) (NewSocketClient ''unix://abci.sock'' True) = Some (None, client_running)"
  by (simp add: Start_def OnStart_def NewSocketClient_def RETRY_LOOP.simps emit_def
      client_running_def)

lemma client_echo_inflight_reached:
  "(case EchoAsync ''hi'' client_running of
      None \<Rightarrow> None
    | Some (h, s) \<Rightarrow> sendRequestsRoutine_iter ReqQueueCh None None s)
   = Some (True, client_echo_inflight)"
  by (simp add: EchoAsync_def queueRequest_def client_running_def reqQueueSize_def
      ToRequestEcho_def NewReqRes_def ThrottleTimer_Set_def sendRequestsRoutine_iter_def
      willSendReq_def WriteMessage_def emit_def client_echo_inflight_def)

lemma client_inflight_and_queued_reached:
  "EchoAsync ''ho'' client_echo_inflight = Some (1, client_inflight_and_queued)"
  by (simp add: EchoAsync_def queueRequest_def client_echo_inflight_def reqQueueSize_def
      ToRequestEcho_def NewReqRes_def ThrottleTimer_Set_def client_inflight_and_queued_def)

section \<open>Response/request matching\<close>

text \<open>
  C4. \<^verbatim>\<open>resMatchesReq(req, res)\<close> is true if and only if the response's variant tag
  equals the request's variant tag for one of the eleven pairings (Echo, Flush, Info,
  SetOption, DeliverTx, CheckTx, Commit, Query, InitChain, BeginBlock, EndBlock); for every
  other pair, among them an Exception response and a message without a value, it is false.
\<close>

theorem resMatchesReq_matches_spec: "resMatchesReq req res = matches_spec req res"
proof (cases req)
  case None
  then show ?thesis by (simp add: matches_spec_def)
next
  case req: (Some rv)
  show ?thesis
  proof (cases res)
    case None
    with req show ?thesis by (cases rv) (simp_all add: matches_spec_def)
  next
    case (Some sv)
    with req show ?thesis
      by (cases rv; cases sv) (simp_all add: matches_spec_def paired_variants_def)
  qed
qed

section \<open>Errors after the client has stopped\<close>

text \<open>
  C10. For every error, \<^verbatim>\<open>StopForError\<close> called on a client that is not running returns
  at once: the error is not latched, no field of the client changes, and \<^verbatim>\<open>Error()\<close>
  still returns what it returned before (the earlier latched error, or nil).
\<close>

theorem StopForError_when_not_running:
  assumes "\<not> IsRunning s"
  shows "StopForError e s = s \<and> err (StopForError e s) = err s
         \<and> Error (StopForError e s) = Error s"
  using assms by (simp add: StopForError_def)

theorem StopForError_when_not_running_witness:
  "\<not> IsRunning (Stop client_echo_inflight)
   \<and> StopForError (CodecError ''EOF'') (Stop client_echo_inflight) = Stop client_echo_inflight
   \<and> err (StopForError (CodecError ''EOF'') (Stop client_echo_inflight)) = None
   \<and> Error (StopForError (CodecError ''EOF'') (Stop client_echo_inflight)) = None"
proof -
  have nr: "\<not> IsRunning (Stop client_echo_inflight)"
    by (rule Stop_not_running)
  have "err (Stop client_echo_inflight) = None"
    by (simp add: Stop_fields client_echo_inflight_def)
  with nr StopForError_when_not_running [OF nr, of "CodecError ''EOF''"] show ?thesis
    by (simp add: Error_def)
qed

section \<open>Submission\<close>



section \<open>The sender task\<close>

text \<open>
  C8. When the flush timer fires, the sender constructs exactly one new
  \<^verbatim>\<open>ReqRes(Flush)\<close> and offers it to the submission queue without blocking: with room in
  the queue it is appended, with a full queue it is dropped and the queue is unchanged. In
  both cases the iteration completes, the loop goes on, no error is latched, the client
  keeps running as before, and nothing is written or logged.
\<close>

theorem flush_timer_fire_offers_one_Flush:
  assumes "flushTimer s"
  shows "\<exists>s'. sendRequestsRoutine_iter TimerCh werr ferr s = Some (True, s')
           \<and> store s' = store s @ [NewReqRes ToRequestFlush]
           \<and> reqQueue s' =
               (if length (reqQueue s) < reqQueueSize then reqQueue s @ [length (store s)]
                else reqQueue s)
           \<and> err s' = err s \<and> IsRunning s' = IsRunning s \<and> trace s' = trace s
           \<and> reqSent s' = reqSent s \<and> wbuf s' = wbuf s \<and> wire s' = wire s"
  using assms by (simp add: sendRequestsRoutine_iter_def Let_def IsRunning_def)

theorem flush_timer_fire_offers_one_Flush_witness:
  "flushTimer client_echo_inflight
   \<and> (\<exists>s'. sendRequestsRoutine_iter TimerCh None None client_echo_inflight = Some (True, s')
          \<and> reqQueue s' = [1] \<and> request (store s' ! 1) = Some Request_Flush
          \<and> err s' = None \<and> IsRunning s')
   \<and> flushTimer (client_echo_inflight\<lparr>reqQueue := replicate 256 0\<rparr>)
   \<and> (\<exists>s'. sendRequestsRoutine_iter TimerCh None None
               (client_echo_inflight\<lparr>reqQueue := replicate 256 0\<rparr>) = Some (True, s')
          \<and> reqQueue s' = replicate 256 0 \<and> err s' = None \<and> IsRunning s')"
proof -
  let ?full = "client_echo_inflight\<lparr>reqQueue := replicate 256 0\<rparr>"
  have a: "flushTimer client_echo_inflight"
    by (simp add: client_echo_inflight_def)
  have b: "flushTimer ?full"
    by (simp add: client_echo_inflight_def)
  from flush_timer_fire_offers_one_Flush [OF a, of None None]
  have 1: "\<exists>s'. sendRequestsRoutine_iter TimerCh None None client_echo_inflight = Some (True, s')
          \<and> reqQueue s' = [1] \<and> request (store s' ! 1) = Some Request_Flush
          \<and> err s' = None \<and> IsRunning s'"
    by (auto simp: client_echo_inflight_def reqQueueSize_def NewReqRes_def ToRequestFlush_def
        IsRunning_def)
  from flush_timer_fire_offers_one_Flush [OF b, of None None]
  have 2: "\<exists>s'. sendRequestsRoutine_iter TimerCh None None ?full = Some (True, s')
          \<and> reqQueue s' = replicate 256 0 \<and> err s' = None \<and> IsRunning s'"
    by (auto simp: client_echo_inflight_def reqQueueSize_def IsRunning_def)
  from a b 1 2 show ?thesis by blast
qed

text \<open>What one turn of the sender on a popped submission does, by the outcome of the write.\<close>

lemma sender_pop_write_failed:
  assumes "reqQueue s = reqres # rest"
  shows "sendRequestsRoutine_iter ReqQueueCh (Some e) ferr s =
           Some (False, StopForError (ErrWritingMsg e)
                   (emit [EvPushBack reqres, EvWriteMessage reqres]
                      (s\<lparr>reqQueue := rest, reqSent := reqSent s @ [reqres]\<rparr>)))"
  using assms
  by (simp add: sendRequestsRoutine_iter_def willSendReq_def WriteMessage_def emit_def)

lemma sender_pop_not_Flush:
  assumes "reqQueue s = reqres # rest" and "\<not> is_Request_Flush (request (store s ! reqres))"
  shows "sendRequestsRoutine_iter ReqQueueCh None ferr s =
           Some (True, emit [EvPushBack reqres, EvWriteMessage reqres]
                   (s\<lparr>reqQueue := rest, reqSent := reqSent s @ [reqres],
                      wbuf := wbuf s @ [request (store s ! reqres)]\<rparr>))"
  using assms
  by (simp add: sendRequestsRoutine_iter_def willSendReq_def WriteMessage_def emit_def)

lemma sender_pop_Flush_ok:
  assumes "reqQueue s = reqres # rest" and "is_Request_Flush (request (store s ! reqres))"
  shows "sendRequestsRoutine_iter ReqQueueCh None None s =
           Some (True, emit [EvPushBack reqres, EvWriteMessage reqres, EvWriterFlush]
                   (s\<lparr>reqQueue := rest, reqSent := reqSent s @ [reqres],
                      wire := wire s @ wbuf s @ [request (store s ! reqres)], wbuf := []\<rparr>))"
  using assms
  by (simp add: sendRequestsRoutine_iter_def willSendReq_def WriteMessage_def WriterFlush_def
      emit_def)

lemma sender_pop_Flush_failed:
  assumes "reqQueue s = reqres # rest" and "is_Request_Flush (request (store s ! reqres))"
  shows "sendRequestsRoutine_iter ReqQueueCh None (Some e) s =
           Some (False, StopForError (ErrFlushingWriter e)
                   (emit [EvPushBack reqres, EvWriteMessage reqres, EvWriterFlush]
                      (s\<lparr>reqQueue := rest, reqSent := reqSent s @ [reqres],
                         wbuf := wbuf s @ [request (store s ! reqres)]\<rparr>)))"
  using assms
  by (simp add: sendRequestsRoutine_iter_def willSendReq_def WriteMessage_def WriterFlush_def
      emit_def)



text \<open>
  C9. In one turn of the sender on a popped submission, the handle is appended to the
  in-flight list \<^verbatim>\<open>reqSent\<close> first and \<^verbatim>\<open>types.WriteMessage\<close> is called on its request
  next: the turn's effects are the append, then the write, then at most a flush of the
  writer and the effects of stopping for an error.
\<close>

theorem sender_appends_before_write:
  assumes "reqQueue s = reqres # rest"
  shows "\<exists>c s' evs. sendRequestsRoutine_iter ReqQueueCh werr ferr s = Some (c, s')
           \<and> trace s' = trace s @ [EvPushBack reqres, EvWriteMessage reqres] @ evs
           \<and> set evs \<subseteq> {EvWriterFlush, EvLogError, EvConnClose}
           \<and> reqSent s' = reqSent s @ [reqres]"
proof (cases werr)
  case (Some e)
  with sender_pop_write_failed [OF assms, of e ferr] show ?thesis
    by (auto simp: StopForError_trace StopForError_fields IsRunning_def split: option.split)
next
  case wok: None
  show ?thesis
  proof (cases "is_Request_Flush (request (store s ! reqres))")
    case False
    with wok sender_pop_not_Flush [OF assms False, of ferr] show ?thesis
      by auto
  next
    case True
    show ?thesis
    proof (cases ferr)
      case None
      with wok True sender_pop_Flush_ok [OF assms True] show ?thesis
        by auto
    next
      case (Some e)
      with wok True sender_pop_Flush_failed [OF assms True, of e] show ?thesis
        by (auto simp: StopForError_trace StopForError_fields IsRunning_def split: option.split)
    qed
  qed
qed

theorem sender_appends_before_write_witness:
  "reqQueue client_inflight_and_queued = [1]
   \<and> (\<exists>c s' evs. sendRequestsRoutine_iter ReqQueueCh None None client_inflight_and_queued
                   = Some (c, s')
          \<and> trace s' = trace client_inflight_and_queued @ [EvPushBack 1, EvWriteMessage 1] @ evs
          \<and> reqSent s' = [0, 1])"
proof -
  have a: "reqQueue client_inflight_and_queued = [1]"
    by (simp add: client_inflight_and_queued_def)
  from sender_appends_before_write [OF a, of None None]
  have "\<exists>c s' evs. sendRequestsRoutine_iter ReqQueueCh None None client_inflight_and_queued
                   = Some (c, s')
          \<and> trace s' = trace client_inflight_and_queued @ [EvPushBack 1, EvWriteMessage 1] @ evs
          \<and> reqSent s' = [0, 1]"
    by (auto simp: client_inflight_and_queued_def)
  with a show ?thesis by blast
qed

section \<open>Start\<close>

lemma emit_conn_commute: "(emit evs s)\<lparr>conn := c\<rparr> = emit evs (s\<lparr>conn := c\<rparr>)"
  by (simp add: emit_def)

text \<open>With \<open>n\<close> refused connections before the first accepted one, the loop retries \<open>n\<close> times.\<close>

lemma RETRY_LOOP_retries:
  assumes "\<not> mustConnect s"
    and "\<forall>j<n. \<exists>e. env (i + j) = ConnFail e"
    and "env (i + n) = ConnOk"
  shows "RETRY_LOOP env i s =
           Some (None, emit (concat (replicate n [EvLogError, EvSleep 3])
                             @ [EvGoSendRequestsRoutine, EvGoRecvResponseRoutine])
                         (s\<lparr>conn := Some ConnOpen\<rparr>))"
  using assms
proof (induction n arbitrary: i s)
  case 0
  then show ?case
    by (subst RETRY_LOOP.simps) simp
next
  case (Suc n)
  from Suc.prems(2) obtain e where fail: "env i = ConnFail e"
    by (metis add.right_neutral zero_less_Suc)
  let ?s1 = "emit [EvLogError, EvSleep 3] s"
  have 1: "\<not> mustConnect ?s1"
    using Suc.prems(1) by simp
  have 2: "\<forall>j<n. \<exists>e. env (Suc i + j) = ConnFail e"
  proof (intro allI impI)
    fix j assume "j < n"
    then have "Suc j < Suc n" by simp
    with Suc.prems(2) have "\<exists>e. env (i + Suc j) = ConnFail e" by blast
    then show "\<exists>e. env (Suc i + j) = ConnFail e" by simp
  qed
  have 3: "env (Suc i + n) = ConnOk"
    using Suc.prems(3) by simp
  have "RETRY_LOOP env i s = RETRY_LOOP env (Suc i) ?s1"
    using fail Suc.prems(1) by (subst RETRY_LOOP.simps) simp
  also note Suc.IH [OF 1 2 3]
  finally show ?case
    by (simp add: emit_conn_commute [symmetric] emit_emit)
qed

text \<open>Against a server that never accepts, the loop does not return.\<close>

lemma RETRY_LOOP_no_result:
  assumes "RETRY_LOOP env i s = Some y"
  shows "mustConnect s \<or> (\<exists>j. env j = ConnOk)"
proof (rule RETRY_LOOP.raw_induct
    [where P = "\<lambda>env i s y. mustConnect s \<or> (\<exists>j. env j = ConnOk)", OF _ assms])
  fix loop :: "(nat \<Rightarrow> connect_result) \<Rightarrow> nat \<Rightarrow> socketClient \<Rightarrow> (error option \<times> socketClient) option"
  fix env i s y
  assume IH: "\<And>env i s y. loop env i s = Some y \<Longrightarrow> mustConnect s \<or> (\<exists>j. env j = ConnOk)"
  assume body:
    "(case env i of
        ConnFail e \<Rightarrow>
          if mustConnect s then Some (Some e, s)
          else loop env (Suc i) (emit [EvLogError, EvSleep 3] s)
      | ConnOk \<Rightarrow>
          Some (None, emit [EvGoSendRequestsRoutine, EvGoRecvResponseRoutine]
                        (s\<lparr>conn := Some ConnOpen\<rparr>))) = Some y"
  show "mustConnect s \<or> (\<exists>j. env j = ConnOk)"
  proof (cases "env i")
    case ConnOk
    then show ?thesis by blast
  next
    case (ConnFail e)
    show ?thesis
    proof (cases "mustConnect s")
      case True
      then show ?thesis by simp
    next
      case False
      with ConnFail body have "loop env (Suc i) (emit [EvLogError, EvSleep 3] s) = Some y"
        by simp
      then have "mustConnect (emit [EvLogError, EvSleep 3] s) \<or> (\<exists>j. env j = ConnOk)"
        by (rule IH)
      with False show ?thesis by simp
    qed
  qed
qed

text \<open>
  C5. With \<^verbatim>\<open>mustConnect\<close> set, a failed first connect makes \<^verbatim>\<open>OnStart\<close> return that
  error with the client untouched: no connection stored, no task spawned. Without it, each
  failed connect is followed by a log line, a sleep of 3 seconds and another attempt; the
  two tasks are spawned after the first successful connect and not before, and when no
  attempt ever succeeds \<^verbatim>\<open>OnStart\<close> does not return. A connect that succeeds at once
  spawns the tasks in either mode.
\<close>

theorem OnStart_connect_and_retry:
  "(mustConnect s \<and> env 0 = ConnFail e \<longrightarrow> OnStart None env s = Some (Some e, s))
   \<and> (\<not> mustConnect s \<and> (\<forall>j<n. \<exists>e'. env j = ConnFail e') \<and> env n = ConnOk \<longrightarrow>
        OnStart None env s =
          Some (None, emit (concat (replicate n [EvLogError, EvSleep 3])
                            @ [EvGoSendRequestsRoutine, EvGoRecvResponseRoutine])
                        (s\<lparr>conn := Some ConnOpen\<rparr>)))
   \<and> (\<not> mustConnect s \<and> (\<forall>j. \<exists>e'. env j = ConnFail e') \<longrightarrow> OnStart None env s = None)
   \<and> (env 0 = ConnOk \<longrightarrow>
        OnStart None env s =
          Some (None, emit [EvGoSendRequestsRoutine, EvGoRecvResponseRoutine]
                        (s\<lparr>conn := Some ConnOpen\<rparr>)))"
proof (intro conjI impI)
  assume "mustConnect s \<and> env 0 = ConnFail e"
  then show "OnStart None env s = Some (Some e, s)"
    by (simp add: OnStart_def RETRY_LOOP.simps [of env 0])
next
  assume a: "\<not> mustConnect s \<and> (\<forall>j<n. \<exists>e'. env j = ConnFail e') \<and> env n = ConnOk"
  then have "\<forall>j<n. \<exists>e'. env (0 + j) = ConnFail e'" and "env (0 + n) = ConnOk"
    by simp_all
  with a RETRY_LOOP_retries [of s n env 0]
  show "OnStart None env s =
          Some (None, emit (concat (replicate n [EvLogError, EvSleep 3])
                            @ [EvGoSendRequestsRoutine, EvGoRecvResponseRoutine])
                        (s\<lparr>conn := Some ConnOpen\<rparr>))"
    by (simp add: OnStart_def)
next
  assume a: "\<not> mustConnect s \<and> (\<forall>j. \<exists>e'. env j = ConnFail e')"
  show "OnStart None env s = None"
  proof (cases "RETRY_LOOP env 0 s")
    case None
    then show ?thesis by (simp add: OnStart_def)
  next
    case (Some y)
    from RETRY_LOOP_no_result [OF this] a show ?thesis
      by (metis connect_result.distinct(1))
  qed
next
  assume "env 0 = ConnOk"
  then show "OnStart None env s =
          Some (None, emit [EvGoSendRequestsRoutine, EvGoRecvResponseRoutine]
                        (s\<lparr>conn := Some ConnOpen\<rparr>))"
    by (simp add: OnStart_def RETRY_LOOP.simps [of env 0])
qed

theorem OnStart_connect_and_retry_witness:
  "OnStart None env_down (NewSocketClient ''unix://abci.sock'' True)
     = Some (Some (ConnectFailed ''connection refused''), NewSocketClient ''unix://abci.sock'' True)
   \<and> OnStart None env_third_try (NewSocketClient ''unix://abci.sock'' False)
     = Some (None, emit [EvLogError, EvSleep 3, EvLogError, EvSleep 3,
                         EvGoSendRequestsRoutine, EvGoRecvResponseRoutine]
                     ((NewSocketClient ''unix://abci.sock'' False)\<lparr>conn := Some ConnOpen\<rparr>))
   \<and> OnStart None env_down (NewSocketClient ''unix://abci.sock'' False) = None
   \<and> OnStart None (\<lambda>i. ConnOk) (NewSocketClient ''unix://abci.sock'' True)
     = Some (None, emit [EvGoSendRequestsRoutine, EvGoRecvResponseRoutine]
                     ((NewSocketClient ''unix://abci.sock'' True)\<lparr>conn := Some ConnOpen\<rparr>))"
proof -
  let ?must = "NewSocketClient ''unix://abci.sock'' True"
  let ?may = "NewSocketClient ''unix://abci.sock'' False"
  have m: "mustConnect ?must" "\<not> mustConnect ?may"
    by (simp_all add: NewSocketClient_def)
  have two: "replicate 2 x = [x, x]" for x :: "event list"
    by (simp add: numeral_2_eq_2)
  from OnStart_connect_and_retry [of ?must env_down "ConnectFailed ''connection refused''" 0] m
  have 1: "OnStart None env_down ?must = Some (Some (ConnectFailed ''connection refused''), ?must)"
    by (simp add: env_down_def)
  from OnStart_connect_and_retry [of ?may env_third_try _ 2] m
  have 2: "OnStart None env_third_try ?may
     = Some (None, emit [EvLogError, EvSleep 3, EvLogError, EvSleep 3,
                         EvGoSendRequestsRoutine, EvGoRecvResponseRoutine]
                     (?may\<lparr>conn := Some ConnOpen\<rparr>))"
    by (simp add: env_third_try_def two)
  from OnStart_connect_and_retry [of ?may env_down _ 0] m
  have 3: "OnStart None env_down ?may = None"
    by (simp add: env_down_def)
  from OnStart_connect_and_retry [of ?must "\<lambda>i. ConnOk" _ 0]
  have 4: "OnStart None (\<lambda>i. ConnOk) ?must
     = Some (None, emit [EvGoSendRequestsRoutine, EvGoRecvResponseRoutine]
                     (?must\<lparr>conn := Some ConnOpen\<rparr>))"
    by simp
  from 1 2 3 4 show ?thesis by blast
qed

section \<open>Shutdown and the handles in flight\<close>

text \<open>
  \<^verbatim>\<open>Stop\<close> signals the handles waiting in the submission queue, and leaves every handle
  that is not in the queue exactly as it was; the in-flight list is not touched.
\<close>

lemma Stop_releases_queued:
  assumes "\<not> stopped s" and "h \<in> set (reqQueue s)" and "h < length (store s)"
  shows "rdone (store (Stop s) ! h)"
proof -
  let ?s1 = "case conn s of
               Some c \<Rightarrow> emit [EvConnClose] (s\<lparr>stopped := True, conn := Some ConnClosed\<rparr>)
             | None \<Rightarrow> s\<lparr>stopped := True\<rparr>"
  have q: "reqQueue ?s1 = reqQueue s" and st: "store ?s1 = store s"
    by (simp_all split: option.split)
  have "store (Stop s) = store (flushQueue ?s1)"
    using assms(1) by (simp add: Stop_def OnStop_def split: option.split)
  moreover have "rdone (store (flushQueue ?s1) ! h)"
    using assms(2,3) q st by (intro flushQueue_releases) simp_all
  ultimately show ?thesis by simp
qed

lemma Stop_keeps_others:
  assumes "h \<notin> set (reqQueue s)"
  shows "store (Stop s) ! h = store s ! h"
proof (cases "stopped s")
  case True
  then show ?thesis by (simp add: Stop_def)
next
  case False
  let ?s1 = "case conn s of
               Some c \<Rightarrow> emit [EvConnClose] (s\<lparr>stopped := True, conn := Some ConnClosed\<rparr>)
             | None \<Rightarrow> s\<lparr>stopped := True\<rparr>"
  have q: "reqQueue ?s1 = reqQueue s" and st: "store ?s1 = store s"
    by (simp_all split: option.split)
  have "store (Stop s) = store (flushQueue ?s1)"
    using False by (simp add: Stop_def OnStop_def split: option.split)
  moreover have "store (flushQueue ?s1) ! h = store ?s1 ! h"
    using assms q by (intro flushQueue_other) simp
  ultimately show ?thesis using st by simp
qed

text \<open>
  C1. The claim is that after \<^verbatim>\<open>Stop\<close> every handle ever submitted has been signalled,
  those in the in-flight list included. Evaluated on a client with handle 0 in flight and
  handle 1 in the submission queue: \<^verbatim>\<open>Stop\<close> signals handle 1, empties the queue, and
  leaves handle 0 in the in-flight list, not signalled.
\<close>

theorem Stop_leaves_inflight_unsignalled:
  "\<not> IsRunning (Stop client_inflight_and_queued)
   \<and> reqQueue (Stop client_inflight_and_queued) = []
   \<and> rdone (store (Stop client_inflight_and_queued) ! 1)
   \<and> reqSent (Stop client_inflight_and_queued) = [0]
   \<and> \<not> rdone (store (Stop client_inflight_and_queued) ! 0)"
  by (simp add: Stop_def OnStop_def flushQueue.simps Done_def emit_def IsRunning_def
      client_inflight_and_queued_def)

section \<open>The receiver task\<close>

lemma didRecvResponse_nothing_expected:
  "reqSent s = [] \<Longrightarrow> didRecvResponse res s = (Some (ErrNothingExpected (TypeOf_res res)), s)"
  by (simp add: didRecvResponse_def)

lemma didRecvResponse_mismatch:
  assumes "reqSent s = next # rest" and "\<not> resMatchesReq (request (store s ! next)) res"
  shows "didRecvResponse res s =
           (Some (ErrUnexpectedType (TypeOf_res res) (TypeOf_req (request (store s ! next)))), s)"
  using assms by (simp add: didRecvResponse_def Let_def)

lemma didRecvResponse_err: "err (snd (didRecvResponse res s)) = err s"
  by (simp add: didRecvResponse_def Let_def split: list.split)

lemma didRecvResponse_IsRunning: "IsRunning (snd (didRecvResponse res s)) = IsRunning s"
  by (simp add: didRecvResponse_def Let_def IsRunning_def split: list.split)

text \<open>A response other than an Exception goes to \<^verbatim>\<open>didRecvResponse\<close>.\<close>

lemma recv_not_Exception:
  assumes "TypeOf_res res \<noteq> Some Tag_Exception"
  shows "recvResponseRoutine_iter (ReadOk res) s =
           (case didRecvResponse res s of
              (Some e, s') \<Rightarrow> (False, StopForError e s')
            | (None, s') \<Rightarrow> (True, s'))"
proof (cases res)
  case None
  then show ?thesis by (simp add: recvResponseRoutine_iter_def)
next
  case (Some sv)
  with assms show ?thesis
    by (cases sv) (simp_all add: recvResponseRoutine_iter_def TypeOf_res_def)
qed

text \<open>The receiver never replaces a latched error.\<close>

lemma recv_keeps_latched_error:
  assumes "err s = Some E"
  shows "err (snd (recvResponseRoutine_iter rd s)) = Some E"
proof -
  have keep: "err (StopForError e s') = Some E" if "err s' = Some E" for e s'
    using that by (simp add: StopForError_err)
  have d: "err (snd (didRecvResponse res s)) = Some E" for res
    using assms by (simp add: didRecvResponse_err)
  show ?thesis
  proof (cases rd)
    case (ReadErr e)
    with keep [OF assms] show ?thesis by (simp add: recvResponseRoutine_iter_def)
  next
    case (ReadOk res)
    show ?thesis
    proof (cases "TypeOf_res res = Some Tag_Exception")
      case True
      then obtain msg where "res = Some (Response_Exception msg)"
        by (cases res; cases "the res") (simp_all add: TypeOf_res_def)
      with ReadOk keep [OF assms] show ?thesis by (simp add: recvResponseRoutine_iter_def)
    next
      case False
      obtain r s' where ds: "didRecvResponse res s = (r, s')" by (cases "didRecvResponse res s")
      with d [of res] have "err s' = Some E" by simp
      with ReadOk ds keep [of s'] recv_not_Exception [OF False, of s] show ?thesis
        by (cases r) simp_all
    qed
  qed
qed

text \<open>
  C3, as stated: every response other than an Exception that arrives while nothing is in
  flight gets a \<open>ProtocolError\<close> latched. It fails on a client that has been stopped
  meanwhile: \<^verbatim>\<open>StopForError\<close> returns before the latch, and no error is stored.
\<close>

theorem unexpected_response_after_Stop_not_latched:
  "reqSent (Stop client_running) = []
   \<and> TypeOf_res (Some (Response_Echo ''x'')) \<noteq> Some Tag_Exception
   \<and> err (snd (recvResponseRoutine_iter (ReadOk (Some (Response_Echo ''x''))) (Stop client_running)))
       = None"
proof -
  have nr: "\<not> IsRunning (Stop client_running)"
    by (rule Stop_not_running)
  have e: "err (Stop client_running) = None" and q: "reqSent (Stop client_running) = []"
    by (simp_all add: Stop_fields client_running_def)
  have t: "TypeOf_res (Some (Response_Echo ''x'')) \<noteq> Some Tag_Exception"
    by (simp add: TypeOf_res_def)
  from nr e q show ?thesis
    by (simp add: recv_not_Exception [OF t] didRecvResponse_nothing_expected [OF q]
        StopForError_def t)
qed

text \<open>
  C3, amended. For every response other than an Exception received while the in-flight list
  is empty, \<^verbatim>\<open>didRecvResponse\<close> returns the \<open>ProtocolError\<close> "nothing expected" and the
  receiver passes it to \<^verbatim>\<open>StopForError\<close> and returns. The error is latched when the
  client is running and no error is latched yet; otherwise the error slot keeps its value.
  In every case the client is not running afterwards.
\<close>

theorem response_with_nothing_in_flight:
  assumes "reqSent s = []" and "TypeOf_res res \<noteq> Some Tag_Exception"
  shows "didRecvResponse res s = (Some (ErrNothingExpected (TypeOf_res res)), s)
         \<and> is_ProtocolError (ErrNothingExpected (TypeOf_res res))
         \<and> recvResponseRoutine_iter (ReadOk res) s
             = (False, StopForError (ErrNothingExpected (TypeOf_res res)) s)
         \<and> err (StopForError (ErrNothingExpected (TypeOf_res res)) s)
             = (if IsRunning s \<and> err s = None then Some (ErrNothingExpected (TypeOf_res res))
                else err s)
         \<and> \<not> IsRunning (StopForError (ErrNothingExpected (TypeOf_res res)) s)"
  using assms
  by (simp add: recv_not_Exception didRecvResponse_nothing_expected StopForError_err
      StopForError_not_running_after)

theorem response_with_nothing_in_flight_witness:
  "reqSent client_running = []
   \<and> TypeOf_res (Some (Response_Echo ''x'')) \<noteq> Some Tag_Exception
   \<and> recvResponseRoutine_iter (ReadOk (Some (Response_Echo ''x''))) client_running
       = (False, StopForError (ErrNothingExpected (Some Tag_Echo)) client_running)
   \<and> err (StopForError (ErrNothingExpected (Some Tag_Echo)) client_running)
       = Some (ErrNothingExpected (Some Tag_Echo))
   \<and> \<not> IsRunning (StopForError (ErrNothingExpected (Some Tag_Echo)) client_running)"
proof -
  have q: "reqSent client_running = []"
    by (simp add: client_running_def)
  have t: "TypeOf_res (Some (Response_Echo ''x'')) \<noteq> Some Tag_Exception"
    by (simp add: TypeOf_res_def)
  have r: "IsRunning client_running \<and> err client_running = None"
    by (simp add: IsRunning_def client_running_def)
  have ty: "TypeOf_res (Some (Response_Echo ''x'')) = Some Tag_Echo"
    by (simp add: TypeOf_res_def)
  from response_with_nothing_in_flight [OF q t] q t r show ?thesis
    unfolding ty by simp
qed

section \<open>After the error is latched\<close>

lemma StopForError_stopped: "stopped s \<Longrightarrow> StopForError e s = s"
  by (simp add: StopForError_def IsRunning_def)

lemma queueRequest_keeps:
  assumes "queueRequest req s = Some (h, t)"
  shows "err t = err s \<and> stopped t = stopped s \<and> started t = started s"
proof -
  have "(case req of Some Request_Flush \<Rightarrow> ThrottleTimer_Unset u | _ \<Rightarrow> ThrottleTimer_Set u)
          = u\<lparr>flushTimer := \<not> is_Request_Flush req\<rparr>" for u
    by (cases req rule: is_Request_Flush.cases)
      (simp_all add: ThrottleTimer_Unset_def ThrottleTimer_Set_def)
  with assms show ?thesis
    by (auto simp: queueRequest_def Let_def split: if_splits)
qed

lemma FlushSync_keeps:
  assumes "FlushSync s = Some (r, t)"
  shows "err t = err s \<and> stopped t = stopped s \<and> started t = started s"
  using assms queueRequest_keeps [of ToRequestFlush s]
  by (auto simp: FlushSync_def Wait_def split: option.splits prod.splits if_splits)

lemma EchoSync_keeps:
  assumes "EchoSync msg s = Some (r, t)"
  shows "err t = err s \<and> stopped t = stopped s \<and> started t = started s"
proof -
  from assms obtain h s1 r1 where
    q: "queueRequest (ToRequestEcho msg) s = Some (h, s1)" and f: "FlushSync s1 = Some (r1, t)"
    by (auto simp: EchoSync_def split: option.splits prod.splits)
  from queueRequest_keeps [OF q] FlushSync_keeps [OF f] show ?thesis by simp
qed

lemma InfoSync_keeps:
  assumes "InfoSync req s = Some (r, t)"
  shows "err t = err s \<and> stopped t = stopped s \<and> started t = started s"
proof -
  from assms obtain h s1 r1 where
    q: "queueRequest (ToRequestInfo req) s = Some (h, s1)" and f: "FlushSync s1 = Some (r1, t)"
    by (auto simp: InfoSync_def split: option.splits prod.splits)
  from queueRequest_keeps [OF q] FlushSync_keeps [OF f] show ?thesis by simp
qed

lemma sender_keeps_when_stopped:
  assumes "stopped s" and "sendRequestsRoutine_iter c werr ferr s = Some (b, t)"
  shows "err t = err s \<and> stopped t"
proof (cases c)
  case TimerCh
  with assms show ?thesis
    by (auto simp: sendRequestsRoutine_iter_def Let_def split: if_splits)
next
  case QuitCh
  with assms show ?thesis
    by (auto simp: sendRequestsRoutine_iter_def split: if_splits)
next
  case ReqQueueCh
  with assms(2) obtain reqres rest where q: "reqQueue s = reqres # rest"
    by (cases "reqQueue s") (simp_all add: sendRequestsRoutine_iter_def)
  show ?thesis
  proof (cases werr)
    case (Some e)
    with assms ReqQueueCh sender_pop_write_failed [OF q, of e ferr] show ?thesis
      by (auto simp: StopForError_stopped)
  next
    case wok: None
    show ?thesis
    proof (cases "is_Request_Flush (request (store s ! reqres))")
      case False
      with assms ReqQueueCh wok sender_pop_not_Flush [OF q False, of ferr] show ?thesis
        by auto
    next
      case True
      show ?thesis
      proof (cases ferr)
        case None
        with assms ReqQueueCh wok sender_pop_Flush_ok [OF q True] show ?thesis
          by auto
      next
        case (Some e)
        with assms ReqQueueCh wok sender_pop_Flush_failed [OF q True, of e] show ?thesis
          by (auto simp: StopForError_stopped)
      qed
    qed
  qed
qed

lemma didRecvResponse_stopped: "stopped (snd (didRecvResponse res s)) = stopped s"
  by (simp add: didRecvResponse_def Let_def split: list.split)

lemma receiver_keeps_when_stopped:
  assumes "stopped s"
  shows "err (snd (recvResponseRoutine_iter rd s)) = err s
         \<and> stopped (snd (recvResponseRoutine_iter rd s))"
proof (cases rd)
  case (ReadErr e)
  with assms show ?thesis
    by (simp add: recvResponseRoutine_iter_def StopForError_stopped)
next
  case (ReadOk res)
  show ?thesis
  proof (cases "TypeOf_res res = Some Tag_Exception")
    case True
    then obtain msg where "res = Some (Response_Exception msg)"
      by (cases res; cases "the res") (simp_all add: TypeOf_res_def)
    with ReadOk assms show ?thesis
      by (simp add: recvResponseRoutine_iter_def StopForError_stopped)
  next
    case False
    obtain r s' where ds: "didRecvResponse res s = (r, s')"
      by (cases "didRecvResponse res s")
    with didRecvResponse_err [of res s] didRecvResponse_stopped [of res s] assms
    have "err s' = err s" and "stopped s'" by simp_all
    with ReadOk ds recv_not_Exception [OF False, of s] show ?thesis
      by (cases r) (simp_all add: StopForError_stopped)
  qed
qed

text \<open>On a stopped client no operation changes the error slot, and none restarts it.\<close>

lemma after_op_stopped:
  assumes "stopped s" and "after_op op s = Some t"
  shows "err t = err s \<and> stopped t"
proof (cases op)
  case (Op_Start env)
  with assms show ?thesis by (auto simp: Start_def)
next
  case Op_Stop
  with assms show ?thesis by (auto simp: Stop_def)
next
  case (Op_StopForError e)
  with assms show ?thesis by (auto simp: StopForError_stopped)
next
  case Op_SetResponseCallback
  with assms show ?thesis by (auto simp: SetResponseCallback_def)
next
  case (Op_queueRequest req)
  with assms queueRequest_keeps [of req s] show ?thesis by auto
next
  case Op_FlushSync
  with assms FlushSync_keeps [of s] show ?thesis by auto
next
  case (Op_EchoSync msg)
  with assms EchoSync_keeps [of msg s] show ?thesis by auto
next
  case (Op_InfoSync req)
  with assms InfoSync_keeps [of req s] show ?thesis by auto
next
  case (Op_sender c werr ferr)
  with assms sender_keeps_when_stopped [of s c werr ferr] show ?thesis by auto
next
  case (Op_receiver rd)
  with assms receiver_keeps_when_stopped [of s rd] show ?thesis by auto
qed

lemma after_ops_stopped:
  assumes "stopped s" and "after_ops ops s = Some t"
  shows "err t = err s \<and> stopped t"
  using assms
proof (induction ops arbitrary: s)
  case Nil
  then show ?case by simp
next
  case (Cons op ops)
  from Cons.prems(2) obtain s1 where 1: "after_op op s = Some s1" and 2: "after_ops ops s1 = Some t"
    by (auto split: option.splits)
  from after_op_stopped [OF Cons.prems(1) 1] have "err s1 = err s" and "stopped s1" by simp_all
  with Cons.IH [OF _ 2] show ?case by simp
qed

text \<open>
  With an error latched, a synchronous call never waits on its handle: it returns the
  latched error, wrapped, as soon as its submissions are in the queue, and it is blocked
  only by a queue without room for them.
\<close>

lemma FlushSync_latched:
  assumes "err s = Some E"
  shows "FlushSync s =
           (if length (reqQueue s) < reqQueueSize
            then Some (Some (Wrapped E HumanCode_InternalError),
                       s\<lparr>store := store s @ [NewReqRes ToRequestFlush],
                         reqQueue := reqQueue s @ [length (store s)], flushTimer := False\<rparr>)
            else None)"
  using assms
  by (simp add: FlushSync_def queueRequest_def Let_def ToRequestFlush_def
      ThrottleTimer_Unset_def Error_def)

lemma EchoSync_latched:
  assumes "err s = Some E"
  shows "EchoSync msg s =
           (if length (reqQueue s) + 2 \<le> reqQueueSize
            then Some ((None, Some (Wrapped E HumanCode_InternalError)),
                       s\<lparr>store := store s @ [NewReqRes (ToRequestEcho msg), NewReqRes ToRequestFlush],
                         reqQueue := reqQueue s @ [length (store s), Suc (length (store s))],
                         flushTimer := False\<rparr>)
            else None)"
  using assms
  by (simp add: EchoSync_def FlushSync_def queueRequest_def Let_def ToRequestEcho_def
      ToRequestFlush_def ThrottleTimer_Set_def ThrottleTimer_Unset_def Error_def NewReqRes_def
      nth_append)

lemma InfoSync_latched:
  assumes "err s = Some E"
  shows "InfoSync req s =
           (if length (reqQueue s) + 2 \<le> reqQueueSize
            then Some ((None, Some (Wrapped E HumanCode_InternalError)),
                       s\<lparr>store := store s @ [NewReqRes (ToRequestInfo req), NewReqRes ToRequestFlush],
                         reqQueue := reqQueue s @ [length (store s), Suc (length (store s))],
                         flushTimer := False\<rparr>)
            else None)"
  using assms
  by (simp add: InfoSync_def FlushSync_def queueRequest_def Let_def ToRequestInfo_def
      ToRequestFlush_def ThrottleTimer_Set_def ThrottleTimer_Unset_def Error_def NewReqRes_def
      nth_append)

text \<open>Callers that keep submitting to a client fill its queue; nothing but the sender drains it.\<close>

lemma EchoAsync_times_fills:
  assumes "length (reqQueue s) + n \<le> reqQueueSize"
  shows "length (reqQueue (EchoAsync_times n s)) = length (reqQueue s) + n
         \<and> err (EchoAsync_times n s) = err s
         \<and> after_ops (replicate n (Op_queueRequest (ToRequestEcho ''x''))) s
             = Some (EchoAsync_times n s)"
  using assms
proof (induction n arbitrary: s)
  case 0
  then show ?case by simp
next
  case (Suc n)
  let ?s1 = "s\<lparr>store := store s @ [NewReqRes (ToRequestEcho ''x'')],
                reqQueue := reqQueue s @ [length (store s)], flushTimer := True\<rparr>"
  from Suc.prems have q: "queueRequest (ToRequestEcho ''x'') s = Some (length (store s), ?s1)"
    by (simp add: queueRequest_def Let_def ToRequestEcho_def ThrottleTimer_Set_def)
  from Suc.prems have "length (reqQueue ?s1) + n \<le> reqQueueSize" by simp
  from Suc.IH [OF this] q show ?case
    by (simp add: EchoAsync_def)
qed

text \<open>
  C2, as stated: every response whose variant does not match the request at the head of the
  in-flight list gets a \<open>ProtocolError\<close> latched, and every later operation returns that
  error. It fails in three ways. An Exception response matches no request and latches its
  own text instead. On a client that has been stopped meanwhile nothing is latched. And
  after a mismatch has been latched, callers that submit 256 further requests fill the
  queue that no task drains any more: a later \<^verbatim>\<open>InfoSync\<close> blocks at its channel send
  and returns nothing.
\<close>

theorem mismatch_not_always_ProtocolError:
  "IsRunning client_echo_inflight \<and> err client_echo_inflight = None
   \<and> reqSent client_echo_inflight = [0]
   \<and> \<not> resMatchesReq (request (store client_echo_inflight ! 0)) (Some (Response_Exception ''boom''))
   \<and> err (snd (recvResponseRoutine_iter (ReadOk (Some (Response_Exception ''boom'')))
                  client_echo_inflight))
       = Some (ErrException ''boom'')
   \<and> \<not> is_ProtocolError (ErrException ''boom'')
   \<and> reqSent (Stop client_echo_inflight) = [0]
   \<and> \<not> resMatchesReq (request (store (Stop client_echo_inflight) ! 0)) (Some (Response_Commit []))
   \<and> err (snd (recvResponseRoutine_iter (ReadOk (Some (Response_Commit [])))
                  (Stop client_echo_inflight)))
       = None
   \<and> \<not> resMatchesReq (request (store client_echo_inflight ! 0)) (Some (Response_Commit []))
   \<and> recvResponseRoutine_iter (ReadOk (Some (Response_Commit []))) client_echo_inflight
       = (False, StopForError (ErrUnexpectedType (Some Tag_Commit) (Some Tag_Echo))
                   client_echo_inflight)
   \<and> err (EchoAsync_times 256
             (StopForError (ErrUnexpectedType (Some Tag_Commit) (Some Tag_Echo))
                client_echo_inflight))
       = Some (ErrUnexpectedType (Some Tag_Commit) (Some Tag_Echo))
   \<and> InfoSync []
        (EchoAsync_times 256
           (StopForError (ErrUnexpectedType (Some Tag_Commit) (Some Tag_Echo))
              client_echo_inflight))
       = None"
proof -
  let ?E = "ErrUnexpectedType (Some Tag_Commit) (Some Tag_Echo)"
  let ?S = "StopForError ?E client_echo_inflight"
  have run: "IsRunning client_echo_inflight \<and> err client_echo_inflight = None
      \<and> reqSent client_echo_inflight = [0]"
    by (simp add: IsRunning_def client_echo_inflight_def)
  have m1: "\<not> resMatchesReq (request (store client_echo_inflight ! 0))
                (Some (Response_Exception ''boom''))"
    by (simp add: client_echo_inflight_def)
  have e1: "err (snd (recvResponseRoutine_iter (ReadOk (Some (Response_Exception ''boom'')))
                  client_echo_inflight)) = Some (ErrException ''boom'')"
    using run by (simp add: recvResponseRoutine_iter_def StopForError_err)
  have q: "reqSent (Stop client_echo_inflight) = [0]"
    and e: "err (Stop client_echo_inflight) = None"
    by (simp_all add: Stop_fields client_echo_inflight_def)
  have "store (Stop client_echo_inflight) ! 0 = store client_echo_inflight ! 0"
    by (rule Stop_keeps_others) (simp add: client_echo_inflight_def)
  then have m2: "\<not> resMatchesReq (request (store (Stop client_echo_inflight) ! 0))
                (Some (Response_Commit []))"
    by (simp add: client_echo_inflight_def)
  have t: "TypeOf_res (Some (Response_Commit [])) \<noteq> Some Tag_Exception"
    by (simp add: TypeOf_res_def)
  have e2: "err (snd (recvResponseRoutine_iter (ReadOk (Some (Response_Commit [])))
                  (Stop client_echo_inflight))) = None"
    using e Stop_not_running [of client_echo_inflight]
    by (simp add: recv_not_Exception [OF t] didRecvResponse_mismatch [OF q m2] StopForError_def)
  have q3: "reqSent client_echo_inflight = [0]"
    using run by simp
  have m3: "\<not> resMatchesReq (request (store client_echo_inflight ! 0)) (Some (Response_Commit []))"
    by (simp add: client_echo_inflight_def)
  have ty: "TypeOf_res (Some (Response_Commit [])) = Some Tag_Commit"
    "TypeOf_req (request (store client_echo_inflight ! 0)) = Some Tag_Echo"
    by (simp_all add: TypeOf_res_def TypeOf_req_def client_echo_inflight_def)
  have r3: "recvResponseRoutine_iter (ReadOk (Some (Response_Commit []))) client_echo_inflight
      = (False, ?S)"
    using ty by (simp add: recv_not_Exception [OF t] didRecvResponse_mismatch [OF q3 m3])
  have latched: "err ?S = Some ?E"
    using run by (simp add: StopForError_err)
  have empty: "reqQueue ?S = []"
    using run by (simp add: StopForError_reqQueue)
  then have "length (reqQueue ?S) + 256 \<le> reqQueueSize"
    by (simp add: reqQueueSize_def)
  from EchoAsync_times_fills [OF this] empty latched
  have full: "length (reqQueue (EchoAsync_times 256 ?S)) = 256"
    and e3: "err (EchoAsync_times 256 ?S) = Some ?E"
    by simp_all
  have b3: "InfoSync [] (EchoAsync_times 256 ?S) = None"
    using full by (simp add: InfoSync_latched [OF e3] reqQueueSize_def)
  from run m1 e1 q m2 e2 m3 r3 e3 b3 show ?thesis by simp
qed

text \<open>
  C2, amended. For every response other than an Exception whose variant does not match the
  request at the head of the in-flight list, the receiver passes the \<open>ProtocolError\<close>
  "unexpected result type" to \<^verbatim>\<open>StopForError\<close> and returns; the client is not running
  afterwards. When the client was running with no error latched, that error is latched;
  otherwise the error slot keeps its value. Once it is latched, after any sequence of
  further operations (calls of \<^verbatim>\<open>Start\<close>, \<^verbatim>\<open>Stop\<close>, \<^verbatim>\<open>StopForError\<close>,
  \<^verbatim>\<open>SetResponseCallback\<close>, submissions, synchronous calls, turns of the sender and of the
  receiver) it is still the latched error, the client is still not running,
  \<^verbatim>\<open>Error()\<close> returns it wrapped, and \<^verbatim>\<open>FlushSync\<close>, \<^verbatim>\<open>EchoSync\<close> and \<^verbatim>\<open>InfoSync\<close>
  return that same wrapped error whenever the submission queue has room for their
  submissions (one for \<^verbatim>\<open>FlushSync\<close>, two for the others); without that room the caller
  blocks at the channel send. An Exception response is passed to \<^verbatim>\<open>StopForError\<close> with
  its own text, which is not a \<open>ProtocolError\<close>, and is latched under the same condition.
\<close>

theorem variant_mismatch_is_fatal:
  "(reqSent s = next # rest \<and> \<not> resMatchesReq (request (store s ! next)) res
      \<and> TypeOf_res res \<noteq> Some Tag_Exception \<longrightarrow>
      (let E = ErrUnexpectedType (TypeOf_res res) (TypeOf_req (request (store s ! next)));
           W = Wrapped E HumanCode_InternalError;
           s' = StopForError E s
       in recvResponseRoutine_iter (ReadOk res) s = (False, s')
          \<and> is_ProtocolError E
          \<and> \<not> IsRunning s'
          \<and> err s' = (if IsRunning s \<and> err s = None then Some E else err s)
          \<and> (IsRunning s \<and> err s = None \<longrightarrow>
               (\<forall>ops t. after_ops ops s' = Some t \<longrightarrow>
                  err t = Some E \<and> \<not> IsRunning t \<and> Error t = Some W
                  \<and> (\<exists>t'. FlushSync t =
                         (if length (reqQueue t) < reqQueueSize then Some (Some W, t') else None))
                  \<and> (\<forall>msg. \<exists>t'. EchoSync msg t =
                         (if length (reqQueue t) + 2 \<le> reqQueueSize
                          then Some ((None, Some W), t') else None))
                  \<and> (\<forall>req. \<exists>t'. InfoSync req t =
                         (if length (reqQueue t) + 2 \<le> reqQueueSize
                          then Some ((None, Some W), t') else None))))))
   \<and> (let X = ErrException msg;
           s' = StopForError X s
       in recvResponseRoutine_iter (ReadOk (Some (Response_Exception msg))) s = (False, s')
          \<and> \<not> is_ProtocolError X
          \<and> \<not> IsRunning s'
          \<and> err s' = (if IsRunning s \<and> err s = None then Some X else err s))"
proof (intro conjI impI)
  assume a: "reqSent s = next # rest \<and> \<not> resMatchesReq (request (store s ! next)) res
      \<and> TypeOf_res res \<noteq> Some Tag_Exception"
  define E where "E = ErrUnexpectedType (TypeOf_res res) (TypeOf_req (request (store s ! next)))"
  define W where "W = Wrapped E HumanCode_InternalError"
  define s' where "s' = StopForError E s"
  have step: "recvResponseRoutine_iter (ReadOk res) s = (False, s')"
    using a by (simp add: recv_not_Exception didRecvResponse_mismatch E_def s'_def)
  have pe: "is_ProtocolError E"
    by (simp add: E_def)
  have nr: "\<not> IsRunning s'"
    by (simp add: s'_def StopForError_not_running_after)
  have er: "err s' = (if IsRunning s \<and> err s = None then Some E else err s)"
    by (simp add: s'_def StopForError_err)
  have later: "err t = Some E \<and> \<not> IsRunning t \<and> Error t = Some W
      \<and> (\<exists>t'. FlushSync t =
             (if length (reqQueue t) < reqQueueSize then Some (Some W, t') else None))
      \<and> (\<forall>msg. \<exists>t'. EchoSync msg t =
             (if length (reqQueue t) + 2 \<le> reqQueueSize then Some ((None, Some W), t') else None))
      \<and> (\<forall>req. \<exists>t'. InfoSync req t =
             (if length (reqQueue t) + 2 \<le> reqQueueSize then Some ((None, Some W), t') else None))"
    if run: "IsRunning s \<and> err s = None" and ops: "after_ops ops s' = Some t" for ops t
  proof -
    from run er have l: "err s' = Some E" by simp
    from run have st: "stopped s'"
      by (simp add: s'_def StopForError_def Stop_fields)
    from after_ops_stopped [OF st ops] l have lt: "err t = Some E" and stt: "stopped t"
      by simp_all
    from stt have nrt: "\<not> IsRunning t"
      by (simp add: IsRunning_def)
    from lt have et: "Error t = Some W"
      by (simp add: Error_def W_def)
    have f: "\<exists>t'. FlushSync t =
        (if length (reqQueue t) < reqQueueSize then Some (Some W, t') else None)"
      unfolding W_def by (subst FlushSync_latched [OF lt]) auto
    have e: "\<exists>t'. EchoSync msg t =
        (if length (reqQueue t) + 2 \<le> reqQueueSize then Some ((None, Some W), t') else None)"
      for msg
      unfolding W_def by (subst EchoSync_latched [OF lt]) auto
    have i: "\<exists>t'. InfoSync req t =
        (if length (reqQueue t) + 2 \<le> reqQueueSize then Some ((None, Some W), t') else None)"
      for req
      unfolding W_def by (subst InfoSync_latched [OF lt]) auto
    from lt nrt et f e i show ?thesis by blast
  qed
  from step pe nr er later
  show "let E = ErrUnexpectedType (TypeOf_res res) (TypeOf_req (request (store s ! next)));
            W = Wrapped E HumanCode_InternalError;
            s' = StopForError E s
        in recvResponseRoutine_iter (ReadOk res) s = (False, s')
           \<and> is_ProtocolError E
           \<and> \<not> IsRunning s'
           \<and> err s' = (if IsRunning s \<and> err s = None then Some E else err s)
           \<and> (IsRunning s \<and> err s = None \<longrightarrow>
                (\<forall>ops t. after_ops ops s' = Some t \<longrightarrow>
                   err t = Some E \<and> \<not> IsRunning t \<and> Error t = Some W
                   \<and> (\<exists>t'. FlushSync t =
                          (if length (reqQueue t) < reqQueueSize then Some (Some W, t') else None))
                   \<and> (\<forall>msg. \<exists>t'. EchoSync msg t =
                          (if length (reqQueue t) + 2 \<le> reqQueueSize
                           then Some ((None, Some W), t') else None))
                   \<and> (\<forall>req. \<exists>t'. InfoSync req t =
                          (if length (reqQueue t) + 2 \<le> reqQueueSize
                           then Some ((None, Some W), t') else None))))"
    unfolding Let_def E_def [symmetric] W_def [symmetric] s'_def [symmetric] by blast
next
  show "let X = ErrException msg;
            s' = StopForError X s
        in recvResponseRoutine_iter (ReadOk (Some (Response_Exception msg))) s = (False, s')
           \<and> \<not> is_ProtocolError X
           \<and> \<not> IsRunning s'
           \<and> err s' = (if IsRunning s \<and> err s = None then Some X else err s)"
    by (simp add: Let_def recvResponseRoutine_iter_def StopForError_not_running_after
        StopForError_err)
qed

theorem variant_mismatch_is_fatal_witness:
  "reqSent client_echo_inflight = [0]
   \<and> \<not> resMatchesReq (request (store client_echo_inflight ! 0)) (Some (Response_Commit []))
   \<and> TypeOf_res (Some (Response_Commit [])) \<noteq> Some Tag_Exception
   \<and> IsRunning client_echo_inflight \<and> err client_echo_inflight = None
   \<and> recvResponseRoutine_iter (ReadOk (Some (Response_Commit []))) client_echo_inflight
       = (False, StopForError (ErrUnexpectedType (Some Tag_Commit) (Some Tag_Echo))
                   client_echo_inflight)
   \<and> err (StopForError (ErrUnexpectedType (Some Tag_Commit) (Some Tag_Echo)) client_echo_inflight)
       = Some (ErrUnexpectedType (Some Tag_Commit) (Some Tag_Echo))
   \<and> (\<exists>t. after_ops [Op_queueRequest (ToRequestEcho ''ho''),
                       Op_receiver (ReadErr (CodecError ''EOF''))]
              (StopForError (ErrUnexpectedType (Some Tag_Commit) (Some Tag_Echo))
                 client_echo_inflight)
            = Some t
          \<and> err t = Some (ErrUnexpectedType (Some Tag_Commit) (Some Tag_Echo))
          \<and> \<not> IsRunning t
          \<and> Error t = Some (Wrapped (ErrUnexpectedType (Some Tag_Commit) (Some Tag_Echo))
                              HumanCode_InternalError)
          \<and> (\<exists>t'. InfoSync [] t
                 = Some ((None, Some (Wrapped (ErrUnexpectedType (Some Tag_Commit) (Some Tag_Echo))
                                        HumanCode_InternalError)), t')))
   \<and> recvResponseRoutine_iter (ReadOk (Some (Response_Exception ''boom''))) client_echo_inflight
       = (False, StopForError (ErrException ''boom'') client_echo_inflight)
   \<and> err (StopForError (ErrException ''boom'') client_echo_inflight)
       = Some (ErrException ''boom'')"
proof -
  let ?E = "ErrUnexpectedType (Some Tag_Commit) (Some Tag_Echo)"
  let ?W = "Wrapped ?E HumanCode_InternalError"
  let ?S = "StopForError ?E client_echo_inflight"
  let ?ops = "[Op_queueRequest (ToRequestEcho ''ho''), Op_receiver (ReadErr (CodecError ''EOF''))]"
  let ?T = "?S\<lparr>store := store ?S @ [NewReqRes (ToRequestEcho ''ho'')],
               reqQueue := [length (store ?S)], flushTimer := True\<rparr>"
  have q: "reqSent client_echo_inflight = [0]"
    by (simp add: client_echo_inflight_def)
  have m: "\<not> resMatchesReq (request (store client_echo_inflight ! 0)) (Some (Response_Commit []))"
    by (simp add: client_echo_inflight_def)
  have t: "TypeOf_res (Some (Response_Commit [])) \<noteq> Some Tag_Exception"
    by (simp add: TypeOf_res_def)
  have r: "IsRunning client_echo_inflight \<and> err client_echo_inflight = None"
    by (simp add: IsRunning_def client_echo_inflight_def)
  have ty: "TypeOf_res (Some (Response_Commit [])) = Some Tag_Commit"
    "TypeOf_req (request (store client_echo_inflight ! 0)) = Some Tag_Echo"
    by (simp_all add: TypeOf_res_def TypeOf_req_def client_echo_inflight_def)
  note inst = variant_mismatch_is_fatal
    [of client_echo_inflight 0 "[]" "Some (Response_Commit [])" "''boom''"]
  from inst q m t
  have step: "recvResponseRoutine_iter (ReadOk (Some (Response_Commit []))) client_echo_inflight
      = (False, ?S)"
    and latched: "err ?S = (if IsRunning client_echo_inflight \<and> err client_echo_inflight = None
                           then Some ?E else err client_echo_inflight)"
    and later: "IsRunning client_echo_inflight \<and> err client_echo_inflight = None \<longrightarrow>
      (\<forall>ops t. after_ops ops ?S = Some t \<longrightarrow>
         err t = Some ?E \<and> \<not> IsRunning t \<and> Error t = Some ?W
         \<and> (\<exists>t'. FlushSync t =
                (if length (reqQueue t) < reqQueueSize then Some (Some ?W, t') else None))
         \<and> (\<forall>msg. \<exists>t'. EchoSync msg t =
                (if length (reqQueue t) + 2 \<le> reqQueueSize
                 then Some ((None, Some ?W), t') else None))
         \<and> (\<forall>req. \<exists>t'. InfoSync req t =
                (if length (reqQueue t) + 2 \<le> reqQueueSize
                 then Some ((None, Some ?W), t') else None)))"
    unfolding Let_def ty by blast+
  from inst
  have exc: "recvResponseRoutine_iter (ReadOk (Some (Response_Exception ''boom''))) client_echo_inflight
      = (False, StopForError (ErrException ''boom'') client_echo_inflight)"
    and excl: "err (StopForError (ErrException ''boom'') client_echo_inflight)
      = (if IsRunning client_echo_inflight \<and> err client_echo_inflight = None
         then Some (ErrException ''boom'') else err client_echo_inflight)"
    unfolding Let_def by blast+
  have empty: "reqQueue ?S = []"
    using r by (simp add: StopForError_reqQueue)
  have st: "stopped ?S"
    using r by (simp add: StopForError_def Stop_fields)
  have ops: "after_ops ?ops ?S = Some ?T"
    using empty st
    by (simp add: queueRequest_def Let_def reqQueueSize_def ToRequestEcho_def
        ThrottleTimer_Set_def recvResponseRoutine_iter_def StopForError_stopped)
  have room: "length (reqQueue ?T) + 2 \<le> reqQueueSize"
    by (simp add: reqQueueSize_def)
  from later r ops have "err ?T = Some ?E \<and> \<not> IsRunning ?T \<and> Error ?T = Some ?W
      \<and> (\<forall>req. \<exists>t'. InfoSync req ?T =
             (if length (reqQueue ?T) + 2 \<le> reqQueueSize
              then Some ((None, Some ?W), t') else None))"
    by blast
  with room have "err ?T = Some ?E \<and> \<not> IsRunning ?T \<and> Error ?T = Some ?W
      \<and> (\<exists>t'. InfoSync [] ?T = Some ((None, Some ?W), t'))"
    by (metis (full_types))
  with ops have ex: "\<exists>t. after_ops ?ops ?S = Some t \<and> err t = Some ?E \<and> \<not> IsRunning t
      \<and> Error t = Some ?W \<and> (\<exists>t'. InfoSync [] t = Some ((None, Some ?W), t'))"
    by blast
  from latched r have l: "err ?S = Some ?E" by simp
  from excl r have xl: "err (StopForError (ErrException ''boom'') client_echo_inflight)
      = Some (ErrException ''boom'')" by simp
  from q m t r step l ex exc xl show ?thesis by blast
qed

end
